theory Spec2Isabelle
  imports Main
begin

section \<open>Python values and exceptions\<close>

text \<open>
  The values that travel through \<^verbatim>\<open>pipelayer/core.py\<close> are decoded JSON documents and
  the responses of the AWS Data Pipeline connection. A dictionary is an association list
  in the order in which Python iterates it; its keys are strings and are distinct.
  Strings are byte strings.
\<close>

datatype pyval =
    PNone
  | PBool bool
  | PInt int
  | PStr string
  | PList "pyval list"
  | PDict "(string \<times> pyval) list"

text \<open>
  The exceptions that the modelled code can raise. \<open>RemoteError\<close> stands for whatever an
  external collaborator (the connection, the translator, the datetime library) raises.
\<close>

datatype error =
    ValueError string
  | TypeError
  | KeyError string
  | IndexError
  | AttributeError
  | NameError string
  | OverflowError
  | RemoteError string

text \<open>\<^verbatim>\<open>obj[key]\<close> with a string key: only a dictionary can be subscripted so.\<close>

fun getitem :: "pyval \<Rightarrow> string \<Rightarrow> error + pyval" where
  "getitem (PDict kvs) k = (case map_of kvs k of None \<Rightarrow> Inl (KeyError k) | Some v \<Rightarrow> Inr v)"
| "getitem _ k = Inl TypeError"

text \<open>\<^verbatim>\<open>obj[0]\<close>: the first element of a list or string; a dictionary has no key 0.\<close>

fun getitem0 :: "pyval \<Rightarrow> error + pyval" where
  "getitem0 (PList []) = Inl IndexError"
| "getitem0 (PList (x # xs)) = Inr x"
| "getitem0 (PStr []) = Inl IndexError"
| "getitem0 (PStr (c # cs)) = Inr (PStr [c])"
| "getitem0 (PDict kvs) = Inl (KeyError ''0'')"
| "getitem0 _ = Inl TypeError"

text \<open>\<^verbatim>\<open>for x in obj\<close>: the elements of a list, the keys of a dictionary, the characters
  of a string; anything else is not iterable.\<close>

fun iter :: "pyval \<Rightarrow> error + pyval list" where
  "iter (PList xs) = Inr xs"
| "iter (PDict kvs) = Inr (map (\<lambda>kv. PStr (fst kv)) kvs)"
| "iter (PStr s) = Inr (map (\<lambda>c. PStr [c]) s)"
| "iter _ = Inl TypeError"

text \<open>\<^verbatim>\<open>obj.items()\<close> and \<^verbatim>\<open>obj.get(key, default)\<close> exist on dictionaries only.\<close>

fun items :: "pyval \<Rightarrow> error + (string \<times> pyval) list" where
  "items (PDict kvs) = Inr kvs"
| "items _ = Inl AttributeError"

fun py_get :: "pyval \<Rightarrow> string \<Rightarrow> pyval \<Rightarrow> error + pyval" where
  "py_get (PDict kvs) k dflt = (case map_of kvs k of None \<Rightarrow> Inr dflt | Some v \<Rightarrow> Inr v)"
| "py_get _ k dflt = Inl AttributeError"

text \<open>\<^verbatim>\<open>d[key] = value\<close> on a dictionary: an existing key keeps its place.\<close>

fun store :: "(string \<times> pyval) list \<Rightarrow> string \<Rightarrow> pyval \<Rightarrow> (string \<times> pyval) list" where
  "store [] k v = [(k, v)]"
| "store ((k', v') # kvs) k v = (if k' = k then (k, v) # kvs else (k', v') # store kvs k v)"

fun setitem :: "pyval \<Rightarrow> string \<Rightarrow> pyval \<Rightarrow> error + pyval" where
  "setitem (PDict kvs) k v = Inr (PDict (store kvs k v))"
| "setitem _ k v = Inl TypeError"

text \<open>Truth value of a Python object, as \<^verbatim>\<open>not\<close> and \<^verbatim>\<open>if\<close> take it.\<close>

fun truthy :: "pyval \<Rightarrow> bool" where
  "truthy PNone = False"
| "truthy (PBool b) = b"
| "truthy (PInt i) = (i \<noteq> 0)"
| "truthy (PStr s) = (s \<noteq> [])"
| "truthy (PList xs) = (xs \<noteq> [])"
| "truthy (PDict kvs) = (kvs \<noteq> [])"

section \<open>Periods: \<^verbatim>\<open>parse_period\<close>\<close>

text \<open>
  \<^verbatim>\<open>PIPELINE_FREQUENCY_RE = re.compile(r'(?P<number>\d+) (?P<unit>\w+s)')\<close>, used with
  \<^verbatim>\<open>match\<close>: anchored at the start of the string only. \<^verbatim>\<open>\d\<close> and \<^verbatim>\<open>\w\<close> are the
  ASCII classes. \<^verbatim>\<open>\d+\<close> takes every leading digit (a shorter run would be followed by a
  digit, not by the space). \<^verbatim>\<open>\w+s\<close> is greedy with backtracking: of the run of word
  characters after the space it takes the longest prefix of at least two characters that
  ends in \<open>s\<close>.
\<close>

definition is_digit :: "char \<Rightarrow> bool" where
  "is_digit c = (c \<in> set ''0123456789'')"

definition is_word :: "char \<Rightarrow> bool" where
  "is_word c = (c \<in> set ''abcdefghijklmnopqrstuvwxyzABCDEFGHIJKLMNOPQRSTUVWXYZ0123456789_'')"

definition unit_group :: "string \<Rightarrow> string option" where
  "unit_group w =
     (let u = rev (dropWhile (\<lambda>c. c \<noteq> CHR ''s'') (rev w))
      in if 2 \<le> length u then Some u else None)"

definition frequency_match :: "string \<Rightarrow> (string \<times> string) option" where
  "frequency_match period =
     (let number = takeWhile is_digit period
      in if number = [] then None
         else (case dropWhile is_digit period of
                 [] \<Rightarrow> None
               | c # r \<Rightarrow>
                   if c \<noteq> CHR '' '' then None
                   else (case unit_group (takeWhile is_word r) of
                           None \<Rightarrow> None
                         | Some unit \<Rightarrow> Some (number, unit))))"

text \<open>
  The same pattern as a shape of the whole string: digits \<open>ds\<close>, one space, the unit
  \<open>u\<close> and a rest whose leading word characters contain no \<open>s\<close>.
\<close>

definition frequency_shape :: "string \<Rightarrow> string \<Rightarrow> string \<Rightarrow> string \<Rightarrow> bool" where
  "frequency_shape period ds u rest =
     (period = ds @ CHR '' '' # u @ rest \<and> ds \<noteq> [] \<and> list_all is_digit ds \<and>
      2 \<le> length u \<and> last u = CHR ''s'' \<and> list_all is_word u \<and>
      CHR ''s'' \<notin> set (takeWhile is_word rest))"

text \<open>\<^verbatim>\<open>int(s)\<close> on a string of decimal digits.\<close>

definition digit_value :: "char \<Rightarrow> int" where
  "digit_value c = int (length (takeWhile (\<lambda>d. d \<noteq> c) ''0123456789''))"

definition int_of_digits :: "string \<Rightarrow> int" where
  "int_of_digits s = foldl (\<lambda>acc c. 10 * acc + digit_value c) 0 s"

text \<open>
  A \<^verbatim>\<open>timedelta\<close> is its length in microseconds. \<^verbatim>\<open>timedelta(**{unit: n})\<close> accepts the
  keyword arguments below and raises \<^verbatim>\<open>TypeError\<close> for any other; it raises
  \<^verbatim>\<open>OverflowError\<close> when the normalised number of days exceeds 999999999 in magnitude.
\<close>

definition unit_microseconds :: "string \<Rightarrow> int option" where
  "unit_microseconds unit =
     (if unit = ''days'' then Some 86400000000
      else if unit = ''seconds'' then Some 1000000
      else if unit = ''microseconds'' then Some 1
      else if unit = ''milliseconds'' then Some 1000
      else if unit = ''minutes'' then Some 60000000
      else if unit = ''hours'' then Some 3600000000
      else if unit = ''weeks'' then Some 604800000000
      else None)"

definition timedelta :: "string \<Rightarrow> int \<Rightarrow> error + int" where
  "timedelta unit n =
     (case unit_microseconds unit of
        None \<Rightarrow> Inl TypeError
      | Some f \<Rightarrow>
          if - 999999999 \<le> (n * f) div 86400000000 \<and> (n * f) div 86400000000 \<le> 999999999
          then Inr (n * f) else Inl OverflowError)"

fun parse_period :: "pyval \<Rightarrow> error + int" where
  "parse_period (PStr period) =
     (case frequency_match period of
        None \<Rightarrow> Inl (ValueError ([CHR 0x27] @ period @ [CHR 0x27] @ '' cannot be parsed as a period''))
      | Some (number, unit) \<Rightarrow> timedelta unit (int_of_digits number))"
| "parse_period _ = Inl TypeError"

section \<open>Schedule arithmetic: \<^verbatim>\<open>adjusted_to_future\<close>\<close>

text \<open>
  A \<^verbatim>\<open>datetime\<close> is the number of microseconds since 0001-01-01T00:00:00; the library
  represents the instants up to the end of the year 9999 (3652059 days) and raises
  \<^verbatim>\<open>OverflowError\<close> when an addition leaves that range. A \<^verbatim>\<open>timedelta\<close> and the clock
  \<^verbatim>\<open>utcnow\<close> have microseconds; \<^verbatim>\<open>PIPELINE_DATETIME_FORMAT = "%Y-%m-%dT%H:%M:%S"\<close> has
  none: \<^verbatim>\<open>strptime\<close> yields an instant of whole seconds, and \<^verbatim>\<open>strftime\<close> writes the
  whole seconds of an instant and drops its microseconds. How the library reads and
  writes whole seconds in this format is a parameter, as is the clock, which is read
  once per call. \<^verbatim>\<open>strptime\<close> may raise; \<^verbatim>\<open>strftime\<close> is taken as total.
\<close>

record env =
  parse_seconds :: "string \<Rightarrow> error + int"
  format_seconds :: "int \<Rightarrow> string"
  utcnow :: int

definition strptime :: "env \<Rightarrow> string \<Rightarrow> error + int" where
  "strptime e timestamp =
     (case parse_seconds e timestamp of
        Inl err \<Rightarrow> Inl err
      | Inr seconds \<Rightarrow> Inr (seconds * 1000000))"

definition strftime :: "env \<Rightarrow> int \<Rightarrow> string" where
  "strftime e dt = format_seconds e (dt div 1000000)"

definition datetime_max :: int where
  "datetime_max = 3652059 * 86400000000"

definition datetime_add :: "int \<Rightarrow> int \<Rightarrow> error + int" where
  "datetime_add dt delta =
     (if 0 \<le> dt + delta \<and> dt + delta < datetime_max then Inr (dt + delta) else Inl OverflowError)"

fun py_strptime :: "env \<Rightarrow> pyval \<Rightarrow> error + int" where
  "py_strptime e (PStr timestamp) = strptime e timestamp"
| "py_strptime e _ = Inl TypeError"

text \<open>The loop \<^verbatim>\<open>while dt < now: dt += delta\<close>. It need not terminate.\<close>

partial_function (option) future_loop :: "int \<Rightarrow> int \<Rightarrow> int \<Rightarrow> (error + int) option" where
  "future_loop now delta dt =
     (if dt < now
      then (case datetime_add dt delta of
              Inl e \<Rightarrow> Some (Inl e)
            | Inr dt' \<Rightarrow> future_loop now delta dt')
      else Some (Inr dt))"

definition adjusted_to_future :: "env \<Rightarrow> pyval \<Rightarrow> pyval \<Rightarrow> (error + pyval) option" where
  "adjusted_to_future e timestamp period =
     (case py_strptime e timestamp of
        Inl err \<Rightarrow> Some (Inl err)
      | Inr dt \<Rightarrow>
          (case parse_period period of
             Inl err \<Rightarrow> Some (Inl err)
           | Inr delta \<Rightarrow>
               (case future_loop (utcnow e) delta dt of
                  None \<Rightarrow> None
                | Some (Inl err) \<Rightarrow> Some (Inl err)
                | Some (Inr dt') \<Rightarrow> Some (Inr (PStr (strftime e dt'))))))"

text \<open>
  The number of periods that the loop adds, in closed form: none when \<open>dt\<close> is not
  before now, otherwise the distance to now divided by the period and rounded up.
\<close>

definition periods_needed :: "int \<Rightarrow> int \<Rightarrow> int \<Rightarrow> nat" where
  "periods_needed now delta dt = (if dt < now then nat ((now - dt + delta - 1) div delta) else 0)"

section \<open>Responses: \<^verbatim>\<open>fetch_field_value\<close>\<close>

fun first_other_value :: "(string \<times> pyval) list \<Rightarrow> pyval option" where
  "first_other_value [] = None"
| "first_other_value ((k, v) # kvs) = (if k \<noteq> ''key'' then Some v else first_other_value kvs)"

text \<open>
  The outer loop over the containers. When it ends without a \<^verbatim>\<open>return\<close>, the source
  builds the message of its \<^verbatim>\<open>ValueError\<close> from \<^verbatim>\<open>response\<close>, a name that is bound
  neither in the function nor in the module: evaluating the argument raises
  \<^verbatim>\<open>NameError\<close> before any \<^verbatim>\<open>ValueError\<close> exists.
\<close>

fun fetch_loop :: "pyval list \<Rightarrow> string \<Rightarrow> error + pyval" where
  "fetch_loop [] field_name = Inl (NameError ''response'')"
| "fetch_loop (container # rest) field_name =
     (case getitem container ''key'' of
        Inl e \<Rightarrow> Inl e
      | Inr k \<Rightarrow>
          if k = PStr field_name
          then (case items container of
                  Inl e \<Rightarrow> Inl e
                | Inr kvs \<Rightarrow>
                    (case first_other_value kvs of
                       Some v \<Rightarrow> Inr v
                     | None \<Rightarrow> fetch_loop rest field_name))
          else fetch_loop rest field_name)"

definition fetch_field_value :: "pyval \<Rightarrow> string \<Rightarrow> error + pyval" where
  "fetch_field_value aws_response field_name =
     (case getitem aws_response ''fields'' of
        Inl e \<Rightarrow> Inl e
      | Inr field_list \<Rightarrow>
          (case iter field_list of
             Inl e \<Rightarrow> Inl e
           | Inr containers \<Rightarrow> fetch_loop containers field_name))"

section \<open>The remote service and the world\<close>

text \<open>
  \<^verbatim>\<open>DataPipelineConnection\<close> is an external collaborator. Each of its methods is a
  request; the service answers a request in its current state with a response or an
  exception and moves to a new state. Nothing is assumed about the service: it is a
  parameter of every operation below.
\<close>

datatype request =
    Create_pipeline pyval pyval pyval
  | Get_pipeline_definition pyval
  | Describe_pipelines "pyval list"
  | Validate_pipeline_definition pyval pyval pyval pyval
  | Put_pipeline_definition pyval pyval pyval pyval
  | Activate_pipeline pyval
  | Delete_pipeline pyval

type_synonym 'r connection = "request \<Rightarrow> 'r \<Rightarrow> (error + pyval) \<times> 'r"

datatype level = DEBUG | INFO | WARNING | ERROR

datatype event = Log level pyval "pyval list" | Print "pyval list"

text \<open>
  The world outside the process: the state of the service, the requests sent to it so
  far (oldest first), and what was logged and printed so far.
\<close>

record 'r world =
  remote :: 'r
  calls :: "request list"
  outputs :: "event list"

definition call :: "'r connection \<Rightarrow> request \<Rightarrow> 'r world \<Rightarrow> (error + pyval) \<times> 'r world" where
  "call conn rq w =
     (case conn rq (remote w) of
        (res, r') \<Rightarrow> (res, w\<lparr>remote := r', calls := calls w @ [rq]\<rparr>))"

definition logging :: "level \<Rightarrow> pyval \<Rightarrow> pyval list \<Rightarrow> 'r world \<Rightarrow> 'r world" where
  "logging lv msg args w = w\<lparr>outputs := outputs w @ [Log lv msg args]\<rparr>"

definition py_print :: "pyval list \<Rightarrow> 'r world \<Rightarrow> 'r world" where
  "py_print args w = w\<lparr>outputs := outputs w @ [Print args]\<rparr>"

text \<open>
  The functions of \<^verbatim>\<open>awscli.customizations.datapipeline.translator\<close> are external and
  pure; they are parameters. A definition is a value of type \<open>'d\<close>, whose equality is
  Python's \<^verbatim>\<open>==\<close> on definitions.
\<close>

record 'd translator =
  api_to_definition :: "pyval \<Rightarrow> error + 'd"
  definition_to_api_objects :: "'d \<Rightarrow> error + pyval"
  definition_to_api_parameters :: "'d \<Rightarrow> error + pyval"
  definition_to_parameter_values :: "pyval \<Rightarrow> error + pyval"

definition state_from_id :: "'r connection \<Rightarrow> pyval \<Rightarrow> 'r world \<Rightarrow> (error + pyval) \<times> 'r world" where
  "state_from_id conn pipeline_id w =
     (case call conn (Describe_pipelines [pipeline_id]) w of
        (Inl e, w1) \<Rightarrow> (Inl e, w1)
      | (Inr response, w1) \<Rightarrow>
          (case getitem response ''pipelineDescriptionList'' of
             Inl e \<Rightarrow> (Inl e, w1)
           | Inr descriptions \<Rightarrow>
               (case getitem0 descriptions of
                  Inl e \<Rightarrow> (Inl e, w1)
                | Inr description \<Rightarrow> (fetch_field_value description ''@pipelineState'', w1))))"

definition definition_from_id ::
  "'r connection \<Rightarrow> 'd translator \<Rightarrow> pyval \<Rightarrow> 'r world \<Rightarrow> (error + 'd) \<times> 'r world" where
  "definition_from_id conn tr pipeline_id w =
     (case call conn (Get_pipeline_definition pipeline_id) w of
        (Inl e, w1) \<Rightarrow> (Inl e, w1)
      | (Inr response, w1) \<Rightarrow> (api_to_definition tr response, w1))"

section \<open>\<^verbatim>\<open>class Pipeline\<close>\<close>

text \<open>
  The attributes of a \<^verbatim>\<open>Pipeline\<close> that its methods read. The connection and the
  translator are passed to each method; \<^verbatim>\<open>dirpath\<close> and \<^verbatim>\<open>s3_conn\<close> serve
  \<^verbatim>\<open>upload\<close> only.
\<close>

record 'd pipeline =
  pdefinition :: 'd
  unique_id :: pyval
  pvalues :: pyval
  name :: pyval
  description :: pyval

text \<open>\<^verbatim>\<open>os.path.basename\<close>: what follows the last slash.\<close>

definition basename :: "string \<Rightarrow> string" where
  "basename p = rev (takeWhile (\<lambda>c. c \<noteq> CHR ''/'') (rev p))"

text \<open>
  \<^verbatim>\<open>Pipeline.__init__\<close>, from the template, the directory path and the decoded content
  of \<^verbatim>\<open>values.json\<close>. It returns nothing when \<^verbatim>\<open>adjusted_to_future\<close> does not return.
\<close>

definition Pipeline_init :: "env \<Rightarrow> 'd \<Rightarrow> string \<Rightarrow> pyval \<Rightarrow> (error + 'd pipeline) option" where
  "Pipeline_init e template dirpath decoded =
     (case py_get decoded ''metadata'' (PDict []) of
        Inl err \<Rightarrow> Some (Inl err)
      | Inr metadata \<Rightarrow>
     (case py_get decoded ''values'' (PDict []) of
        Inl err \<Rightarrow> Some (Inl err)
      | Inr vals \<Rightarrow>
     (case py_get metadata ''name'' (PStr (basename dirpath)) of
        Inl err \<Rightarrow> Some (Inl err)
      | Inr nm \<Rightarrow>
     (case py_get metadata ''description'' PNone of
        Inl err \<Rightarrow> Some (Inl err)
      | Inr descr \<Rightarrow>
     (case getitem vals ''myStartDateTime'' of
        Inl err \<Rightarrow> Some (Inl err)
      | Inr timestamp \<Rightarrow>
     (case getitem vals ''mySchedulePeriod'' of
        Inl err \<Rightarrow> Some (Inl err)
      | Inr period \<Rightarrow>
     (case adjusted_to_future e timestamp period of
        None \<Rightarrow> None
      | Some (Inl err) \<Rightarrow> Some (Inl err)
      | Some (Inr adjusted_timestamp) \<Rightarrow>
     (case setitem vals ''myStartDateTime'' adjusted_timestamp of
        Inl err \<Rightarrow> Some (Inl err)
      | Inr vals' \<Rightarrow>
          Some (Inr \<lparr>pdefinition = template, unique_id = PStr ''unique_id'',
                     pvalues = vals', name = nm, description = descr\<rparr>)))))))))"

definition api_objects :: "'d translator \<Rightarrow> 'd pipeline \<Rightarrow> error + pyval" where
  "api_objects tr p = definition_to_api_objects tr (pdefinition p)"

definition api_parameters :: "'d translator \<Rightarrow> 'd pipeline \<Rightarrow> error + pyval" where
  "api_parameters tr p = definition_to_api_parameters tr (pdefinition p)"

definition api_values :: "'d translator \<Rightarrow> 'd pipeline \<Rightarrow> error + pyval" where
  "api_values tr p = definition_to_parameter_values tr (PDict [(''values'', pvalues p)])"

definition create :: "'r connection \<Rightarrow> 'd pipeline \<Rightarrow> 'r world \<Rightarrow> (error + pyval) \<times> 'r world" where
  "create conn p w =
     (case call conn (Create_pipeline (name p) (unique_id p) (description p)) w of
        (Inl e, w1) \<Rightarrow> (Inl e, w1)
      | (Inr response, w1) \<Rightarrow> (getitem response ''pipelineId'', w1))"

text \<open>\<^verbatim>\<open>Pipeline._log_validation_messages\<close>: two loops over containers, each with an
  inner loop over messages.\<close>

fun log_messages :: "level \<Rightarrow> pyval list \<Rightarrow> 'r world \<Rightarrow> 'r world" where
  "log_messages lv [] w = w"
| "log_messages lv (message # rest) w = log_messages lv rest (logging lv message [] w)"

fun log_containers ::
  "level \<Rightarrow> string \<Rightarrow> string \<Rightarrow> pyval list \<Rightarrow> 'r world \<Rightarrow> (error + unit) \<times> 'r world" where
  "log_containers lv heading key [] w = (Inr (), w)"
| "log_containers lv heading key (container # rest) w =
     (case getitem container ''id'' of
        Inl e \<Rightarrow> (Inl e, w)
      | Inr i \<Rightarrow>
          (case getitem container key of
             Inl e \<Rightarrow> (Inl e, logging lv (PStr heading) [i] w)
           | Inr ms \<Rightarrow>
               (case iter ms of
                  Inl e \<Rightarrow> (Inl e, logging lv (PStr heading) [i] w)
                | Inr messages \<Rightarrow>
                    log_containers lv heading key rest
                      (log_messages lv messages (logging lv (PStr heading) [i] w)))))"

definition log_validation_messages :: "pyval \<Rightarrow> 'r world \<Rightarrow> (error + unit) \<times> 'r world" where
  "log_validation_messages response w =
     (case getitem response ''validationWarnings'' of
        Inl e \<Rightarrow> (Inl e, w)
      | Inr ws \<Rightarrow>
     (case iter ws of
        Inl e \<Rightarrow> (Inl e, w)
      | Inr warning_containers \<Rightarrow>
     (case log_containers WARNING ''Warnings in validation response for %s'' ''warnings''
             warning_containers w of
        (Inl e, w1) \<Rightarrow> (Inl e, w1)
      | (Inr u, w1) \<Rightarrow>
     (case getitem response ''validationErrors'' of
        Inl e \<Rightarrow> (Inl e, w1)
      | Inr es \<Rightarrow>
     (case iter es of
        Inl e \<Rightarrow> (Inl e, w1)
      | Inr error_containers \<Rightarrow>
          log_containers ERROR ''Errors in validation response for %s'' ''errors''
            error_containers w1)))))"

text \<open>\<^verbatim>\<open>PIPELAYER_STUB_PARAMS\<close>.\<close>

definition stub_request :: request where
  "stub_request =
     Create_pipeline (PStr ''Pipelayer validation stub'') (PStr ''stub'')
       (PStr (''This pipeline should always be in 'PENDING' status.'' @ [CHR 0x0A] @
              ''It is used by Pipelayer to validate pipeline definitions.''))"

definition is_valid ::
  "'r connection \<Rightarrow> 'd translator \<Rightarrow> 'd pipeline \<Rightarrow> 'r world \<Rightarrow> (error + bool) \<times> 'r world" where
  "is_valid conn tr p w =
     (case call conn stub_request w of
        (Inl e, w1) \<Rightarrow> (Inl e, w1)
      | (Inr response, w1) \<Rightarrow>
     (case getitem response ''pipelineId'' of
        Inl e \<Rightarrow> (Inl e, w1)
      | Inr pipeline_id \<Rightarrow>
     (case api_objects tr p of
        Inl e \<Rightarrow> (Inl e, w1)
      | Inr objs \<Rightarrow>
     (case api_parameters tr p of
        Inl e \<Rightarrow> (Inl e, w1)
      | Inr params \<Rightarrow>
     (case api_values tr p of
        Inl e \<Rightarrow> (Inl e, w1)
      | Inr vals \<Rightarrow>
     (case call conn (Validate_pipeline_definition objs pipeline_id params vals) w1 of
        (Inl e, w2) \<Rightarrow> (Inl e, w2)
      | (Inr response2, w2) \<Rightarrow>
     (case log_validation_messages response2 w2 of
        (Inl e, w3) \<Rightarrow> (Inl e, w3)
      | (Inr u, w3) \<Rightarrow>
     (case getitem response2 ''errored'' of
        Inl e \<Rightarrow> (Inl e, w3)
      | Inr errored \<Rightarrow> (Inr (\<not> truthy errored), w3)))))))))"

text \<open>
  \<^verbatim>\<open>Pipeline.activate\<close>. The source calls itself after a delete, with no bound on the
  depth: the model returns nothing when the recursion does not end.
\<close>

partial_function (option) activate ::
  "'r connection \<Rightarrow> 'd translator \<Rightarrow> 'd pipeline \<Rightarrow> 'r world \<Rightarrow> ((error + pyval) \<times> 'r world) option" where
  "activate conn tr p w =
     (case create conn p w of
        (Inl e, w1) \<Rightarrow> Some (Inl e, w1)
      | (Inr pipeline_id, w1) \<Rightarrow>
     (case definition_from_id conn tr pipeline_id w1 of
        (Inl e, w2) \<Rightarrow> Some (Inl e, w2)
      | (Inr existing_definition, w2) \<Rightarrow>
     (case state_from_id conn pipeline_id w2 of
        (Inl e, w3) \<Rightarrow> Some (Inl e, w3)
      | (Inr state, w3) \<Rightarrow>
          if existing_definition = pdefinition p then Some (Inr (PBool True), w3)
          else if state \<noteq> PStr ''PENDING'' then
            (case call conn (Delete_pipeline pipeline_id)
                    (logging INFO (PStr ''Deleting pipeline with id {}'') [pipeline_id]
                       (py_print [PStr ''State is: '', state] w3)) of
               (Inl e, w4) \<Rightarrow> Some (Inl e, w4)
             | (Inr u, w4) \<Rightarrow> activate conn tr p w4)
          else
            (case api_objects tr p of
               Inl e \<Rightarrow> Some (Inl e, logging DEBUG (PStr ''Putting pipeline definition'') [] w3)
             | Inr objs \<Rightarrow>
            (case api_parameters tr p of
               Inl e \<Rightarrow> Some (Inl e, logging DEBUG (PStr ''Putting pipeline definition'') [] w3)
             | Inr params \<Rightarrow>
            (case api_values tr p of
               Inl e \<Rightarrow> Some (Inl e, logging DEBUG (PStr ''Putting pipeline definition'') [] w3)
             | Inr vals \<Rightarrow>
            (case call conn (Put_pipeline_definition objs pipeline_id params vals)
                    (logging DEBUG (PStr ''Putting pipeline definition'') [] w3) of
               (Inl e, w4) \<Rightarrow> Some (Inl e, w4)
             | (Inr u, w4) \<Rightarrow>
            (case call conn (Activate_pipeline pipeline_id)
                    (logging INFO (PStr ''Activating pipeline with id {}'') [pipeline_id] w4) of
               (Inl e, w5) \<Rightarrow> Some (Inl e, w5)
             | (Inr u', w5) \<Rightarrow> Some (Inr PNone, w5)))))))))"

section \<open>\<^verbatim>\<open>class Pipelayer\<close>\<close>

text \<open>
  The methods below run over \<^verbatim>\<open>self.pipelines.values()\<close>, here the list \<open>ps\<close> in the
  order of that iteration. The list comprehension of \<^verbatim>\<open>are_pipelines_valid\<close> validates
  every pipeline before \<^verbatim>\<open>all\<close> looks at the first verdict.
\<close>

fun is_valid_each ::
  "'r connection \<Rightarrow> 'd translator \<Rightarrow> 'd pipeline list \<Rightarrow> 'r world \<Rightarrow> (error + bool list) \<times> 'r world" where
  "is_valid_each conn tr [] w = (Inr [], w)"
| "is_valid_each conn tr (p # ps) w =
     (case is_valid conn tr p w of
        (Inl e, w1) \<Rightarrow> (Inl e, w1)
      | (Inr b, w1) \<Rightarrow>
          (case is_valid_each conn tr ps w1 of
             (Inl e, w2) \<Rightarrow> (Inl e, w2)
           | (Inr bs, w2) \<Rightarrow> (Inr (b # bs), w2)))"

definition are_pipelines_valid ::
  "'r connection \<Rightarrow> 'd translator \<Rightarrow> 'd pipeline list \<Rightarrow> 'r world \<Rightarrow> (error + bool) \<times> 'r world" where
  "are_pipelines_valid conn tr ps w =
     (case is_valid_each conn tr ps w of
        (Inl e, w1) \<Rightarrow> (Inl e, w1)
      | (Inr bs, w1) \<Rightarrow> (Inr (list_all (\<lambda>b. b) bs), w1))"

text \<open>The loop \<^verbatim>\<open>for p in self.pipelines.values(): p.activate()\<close>.\<close>

fun activate_each ::
  "'r connection \<Rightarrow> 'd translator \<Rightarrow> 'd pipeline list \<Rightarrow> 'r world \<Rightarrow> ((error + pyval) \<times> 'r world) option" where
  "activate_each conn tr [] w = Some (Inr PNone, w)"
| "activate_each conn tr (p # ps) w =
     (case activate conn tr p w of
        None \<Rightarrow> None
      | Some (Inl e, w1) \<Rightarrow> Some (Inl e, w1)
      | Some (Inr v, w1) \<Rightarrow> activate_each conn tr ps w1)"

definition Pipelayer_activate ::
  "'r connection \<Rightarrow> 'd translator \<Rightarrow> 'd pipeline list \<Rightarrow> 'r world \<Rightarrow> ((error + pyval) \<times> 'r world) option" where
  "Pipelayer_activate conn tr ps w =
     (case are_pipelines_valid conn tr ps w of
        (Inl e, w1) \<Rightarrow> Some (Inl e, w1)
      | (Inr valid, w1) \<Rightarrow>
          if \<not> valid
          then Some (Inr (PBool False),
                     logging ERROR (PStr ''Not activating pipelines due to validation errors.'') [] w1)
          else activate_each conn tr ps w1)"

section \<open>Observing a run\<close>

text \<open>The requests sent between an earlier world and a later one.\<close>

definition issued :: "'r world \<Rightarrow> 'r world \<Rightarrow> request list" where
  "issued w w' = drop (length (calls w)) (calls w')"

fun is_delete :: "request \<Rightarrow> bool" where
  "is_delete (Delete_pipeline i) = True"
| "is_delete _ = False"

fun is_put :: "request \<Rightarrow> bool" where
  "is_put (Put_pipeline_definition objs i params vals) = True"
| "is_put _ = False"

fun is_activate :: "request \<Rightarrow> bool" where
  "is_activate (Activate_pipeline i) = True"
| "is_activate _ = False"

text \<open>The requests that validation sends: the stub's create and the dry run.\<close>

fun validation_request :: "request \<Rightarrow> bool" where
  "validation_request (Create_pipeline n u d) = (u = PStr ''stub'')"
| "validation_request (Validate_pipeline_definition objs i params vals) = True"
| "validation_request _ = False"

text \<open>The names under which pipelines were created, in the order of the requests.\<close>

fun created :: "request list \<Rightarrow> pyval list" where
  "created [] = []"
| "created (Create_pipeline n u d # rqs) = n # created rqs"
| "created (rq # rqs) = created rqs"

fun repeated :: "nat list \<Rightarrow> 'a list \<Rightarrow> 'a list" where
  "repeated (k # ks) (x # xs) = replicate k x @ repeated ks xs"
| "repeated _ _ = []"

text \<open>
  One pass through the body of \<^verbatim>\<open>Pipeline.activate\<close>: it either returns (or raises),
  or reaches the recursive call in a new world. \<open>activate\<close> is the iteration of this pass
  (lemma \<open>activate_unroll\<close> below).
\<close>

datatype 'r outcome = Done "(error + pyval) \<times> 'r world" | Restart "'r world"

definition activate_round ::
  "'r connection \<Rightarrow> 'd translator \<Rightarrow> 'd pipeline \<Rightarrow> 'r world \<Rightarrow> 'r outcome" where
  "activate_round conn tr p w =
     (case create conn p w of
        (Inl e, w1) \<Rightarrow> Done (Inl e, w1)
      | (Inr pipeline_id, w1) \<Rightarrow>
     (case definition_from_id conn tr pipeline_id w1 of
        (Inl e, w2) \<Rightarrow> Done (Inl e, w2)
      | (Inr existing_definition, w2) \<Rightarrow>
     (case state_from_id conn pipeline_id w2 of
        (Inl e, w3) \<Rightarrow> Done (Inl e, w3)
      | (Inr state, w3) \<Rightarrow>
          if existing_definition = pdefinition p then Done (Inr (PBool True), w3)
          else if state \<noteq> PStr ''PENDING'' then
            (case call conn (Delete_pipeline pipeline_id)
                    (logging INFO (PStr ''Deleting pipeline with id {}'') [pipeline_id]
                       (py_print [PStr ''State is: '', state] w3)) of
               (Inl e, w4) \<Rightarrow> Done (Inl e, w4)
             | (Inr u, w4) \<Rightarrow> Restart w4)
          else
            (case api_objects tr p of
               Inl e \<Rightarrow> Done (Inl e, logging DEBUG (PStr ''Putting pipeline definition'') [] w3)
             | Inr objs \<Rightarrow>
            (case api_parameters tr p of
               Inl e \<Rightarrow> Done (Inl e, logging DEBUG (PStr ''Putting pipeline definition'') [] w3)
             | Inr params \<Rightarrow>
            (case api_values tr p of
               Inl e \<Rightarrow> Done (Inl e, logging DEBUG (PStr ''Putting pipeline definition'') [] w3)
             | Inr vals \<Rightarrow>
            (case call conn (Put_pipeline_definition objs pipeline_id params vals)
                    (logging DEBUG (PStr ''Putting pipeline definition'') [] w3) of
               (Inl e, w4) \<Rightarrow> Done (Inl e, w4)
             | (Inr u, w4) \<Rightarrow>
            (case call conn (Activate_pipeline pipeline_id)
                    (logging INFO (PStr ''Activating pipeline with id {}'') [pipeline_id] w4) of
               (Inl e, w5) \<Rightarrow> Done (Inl e, w5)
             | (Inr u', w5) \<Rightarrow> Done (Inr PNone, w5)))))))))"

text \<open>
  The run that follows the first delete sends no further delete: the entity it finds is
  \<^verbatim>\<open>PENDING\<close>, or already has the desired definition, or one of its reads fails.
\<close>

definition settles_after_restart ::
  "'r connection \<Rightarrow> 'd translator \<Rightarrow> 'd pipeline \<Rightarrow> 'r world \<Rightarrow> bool" where
  "settles_after_restart conn tr p w =
     (case activate_round conn tr p w of
        Done r \<Rightarrow> True
      | Restart w4 \<Rightarrow>
          (case activate_round conn tr p w4 of
             Done (res, w5) \<Rightarrow> filter is_delete (issued w4 w5) = []
           | Restart w5 \<Rightarrow> False))"

text \<open>What a run returned or raised, and the requests in the world it left, if it ended.\<close>

definition result_of :: "((error + pyval) \<times> 'r world) option \<Rightarrow> (error + pyval) option" where
  "result_of run = map_option fst run"

definition requests_of :: "((error + pyval) \<times> 'r world) option \<Rightarrow> request list option" where
  "requests_of run = map_option (\<lambda>r. calls (snd r)) run"

section \<open>Scenarios\<close>

text \<open>A clock and a calendar given by a finite table of timestamps and the whole seconds
  they denote.\<close>

definition calendar_env :: "(string \<times> int) list \<Rightarrow> int \<Rightarrow> env" where
  "calendar_env table now =
     \<lparr>parse_seconds = (\<lambda>s. case map_of table s of
                        None \<Rightarrow> Inl (ValueError ''time data does not match format'')
                      | Some seconds \<Rightarrow> Inr seconds),
      format_seconds = (\<lambda>seconds. case map_of (map (\<lambda>(s, i). (i, s)) table) seconds of
                         None \<Rightarrow> []
                       | Some s \<Rightarrow> s),
      utcnow = now\<rparr>"

text \<open>The first days of 2014; 2014-01-01 is 735233 days after 0001-01-01.\<close>

definition january_2014 :: "(string \<times> int) list" where
  "january_2014 =
     [(''2014-01-01T00:00:00'', 735233 * 86400),
      (''2014-01-02T00:00:00'', 735234 * 86400),
      (''2014-01-03T00:00:00'', 735235 * 86400),
      (''2014-01-04T00:00:00'', 735236 * 86400)]"

text \<open>A translator that leaves definitions as they are.\<close>

definition plain_translator :: "pyval translator" where
  "plain_translator =
     \<lparr>api_to_definition = Inr,
      definition_to_api_objects = Inr,
      definition_to_api_parameters = (\<lambda>d. Inr (PList [])),
      definition_to_parameter_values = Inr\<rparr>"

text \<open>
  A simulated service holding one entity: its lifecycle state and its registered
  definition. What a delete leaves behind is a parameter.
\<close>

type_synonym sim = "string \<times> pyval"

definition empty_definition :: pyval where
  "empty_definition = PDict [(''objects'', PList [])]"

definition fresh :: sim where
  "fresh = (''PENDING'', empty_definition)"

definition description_of :: "string \<Rightarrow> pyval" where
  "description_of st =
     PDict [(''pipelineDescriptionList'',
             PList [PDict [(''pipelineId'', PStr ''df-1''),
                           (''fields'', PList [PDict [(''key'', PStr ''name''), (''stringValue'', PStr ''n'')],
                                               PDict [(''key'', PStr ''@pipelineState''),
                                                      (''stringValue'', PStr st)]])]])]"

definition verdict :: "pyval \<Rightarrow> pyval" where
  "verdict objs =
     (if objs = empty_definition
      then PDict [(''errored'', PBool True), (''validationWarnings'', PList []),
                  (''validationErrors'',
                   PList [PDict [(''id'', PStr ''Default''),
                                 (''errors'', PList [PStr ''No objects defined''])]])]
      else PDict [(''errored'', PBool False), (''validationWarnings'', PList []),
                  (''validationErrors'', PList [])])"

fun service :: "(sim \<Rightarrow> sim) \<Rightarrow> sim connection" where
  "service after_delete (Create_pipeline n u d) s = (Inr (PDict [(''pipelineId'', PStr ''df-1'')]), s)"
| "service after_delete (Get_pipeline_definition i) s = (Inr (snd s), s)"
| "service after_delete (Describe_pipelines ids) s = (Inr (description_of (fst s)), s)"
| "service after_delete (Validate_pipeline_definition objs i params vals) s = (Inr (verdict objs), s)"
| "service after_delete (Put_pipeline_definition objs i params vals) s = (Inr PNone, (fst s, objs))"
| "service after_delete (Activate_pipeline i) s = (Inr PNone, (''SCHEDULED'', snd s))"
| "service after_delete (Delete_pipeline i) s = (Inr PNone, after_delete s)"

text \<open>After a delete: a fresh entity at once; or only after a second delete; or never.\<close>

definition prompt_service :: "sim connection" where
  "prompt_service = service (\<lambda>s. fresh)"

definition slow_service :: "sim connection" where
  "slow_service = service (\<lambda>s. if fst s = ''SCHEDULED'' then (''DELETING'', snd s) else fresh)"

definition stubborn_service :: "sim connection" where
  "stubborn_service = service (\<lambda>s. s)"

definition world_in :: "sim \<Rightarrow> sim world" where
  "world_in s = \<lparr>remote = s, calls = [], outputs = []\<rparr>"

definition hourly_definition :: pyval where
  "hourly_definition = PDict [(''objects'', PList [PDict [(''id'', PStr ''Default'')]])]"

definition daily_definition :: pyval where
  "daily_definition = PDict [(''objects'', PList [PDict [(''id'', PStr ''Daily'')]])]"

definition values_json :: pyval where
  "values_json =
     PDict [(''values'', PDict [(''myStartDateTime'', PStr ''2014-01-03T00:00:00''),
                                (''mySchedulePeriod'', PStr ''1 days'')])]"

definition pipeline_named :: "string \<Rightarrow> pyval \<Rightarrow> pyval pipeline" where
  "pipeline_named n d =
     \<lparr>pdefinition = d, unique_id = PStr ''unique_id'',
      pvalues = PDict [(''myStartDateTime'', PStr ''2014-01-03T00:00:00''),
                       (''mySchedulePeriod'', PStr ''1 days'')],
      name = PStr n, description = PNone\<rparr>"

section \<open>Properties of the period parser\<close>

lemma unit_group_iff:
  "unit_group w = Some u \<longleftrightarrow>
   (\<exists>v. w = u @ v \<and> 2 \<le> length u \<and> last u = CHR ''s'' \<and> CHR ''s'' \<notin> set v)"
proof
  let ?P = "\<lambda>c. c \<noteq> CHR ''s''"
  assume a: "unit_group w = Some u"
  then have u: "u = rev (dropWhile ?P (rev w))" and len: "2 \<le> length u"
    by (auto simp: unit_group_def Let_def split: if_splits)
  let ?v = "rev (takeWhile ?P (rev w))"
  have "rev w = takeWhile ?P (rev w) @ dropWhile ?P (rev w)" by simp
  then have "rev (rev w) = rev (takeWhile ?P (rev w) @ dropWhile ?P (rev w))" by (rule arg_cong)
  then have w: "w = u @ ?v" unfolding u by (simp del: takeWhile_dropWhile_id)
  have ne: "dropWhile ?P (rev w) \<noteq> []"
  proof
    assume "dropWhile ?P (rev w) = []"
    then have "u = []" unfolding u by (simp only: rev.simps)
    with len show False by simp
  qed
  have "last u = hd (dropWhile ?P (rev w))" unfolding u using ne by (simp add: last_rev)
  moreover have "\<not> ?P (hd (dropWhile ?P (rev w)))" using ne by (rule hd_dropWhile)
  ultimately have l: "last u = CHR ''s''" by simp
  have "CHR ''s'' \<notin> set ?v" using set_takeWhileD[of "CHR ''s''" ?P "rev w"] by auto
  with w len l show "\<exists>v. w = u @ v \<and> 2 \<le> length u \<and> last u = CHR ''s'' \<and> CHR ''s'' \<notin> set v"
    by blast
next
  let ?P = "\<lambda>c. c \<noteq> CHR ''s''"
  assume "\<exists>v. w = u @ v \<and> 2 \<le> length u \<and> last u = CHR ''s'' \<and> CHR ''s'' \<notin> set v"
  then obtain v where w: "w = u @ v" and len: "2 \<le> length u" and l: "last u = CHR ''s''"
    and v: "CHR ''s'' \<notin> set v" by blast
  from len have une: "u \<noteq> []" by auto
  have "\<And>x. x \<in> set (rev v) \<Longrightarrow> ?P x" using v by auto
  then have "dropWhile ?P (rev v @ rev u) = dropWhile ?P (rev u)" by (rule dropWhile_append2)
  then have "dropWhile ?P (rev w) = dropWhile ?P (rev u)" unfolding w by simp
  also have "\<dots> = rev u"
  proof -
    from une l have "hd (rev u) = CHR ''s''" by (simp add: hd_rev)
    moreover from une have "rev u \<noteq> []" by simp
    ultimately show ?thesis by (cases "rev u") auto
  qed
  finally show "unit_group w = Some u" using len by (simp add: unit_group_def Let_def)
qed

lemma not_digit_space: "\<not> is_digit (CHR '' '')"
  by (simp add: is_digit_def)

lemma frequency_match_iff:
  "frequency_match s = Some (ds, u) \<longleftrightarrow>
   ds \<noteq> [] \<and> list_all is_digit ds \<and>
   (\<exists>tl. s = ds @ CHR '' '' # u @ tl \<and> 2 \<le> length u \<and> last u = CHR ''s'' \<and>
         list_all is_word u \<and> CHR ''s'' \<notin> set (takeWhile is_word tl))"
proof
  assume a: "frequency_match s = Some (ds, u)"
  from a have ds: "ds = takeWhile is_digit s" and dne: "ds \<noteq> []"
    by (auto simp: frequency_match_def Let_def split: if_splits list.splits option.splits)
  from a obtain r where r: "dropWhile is_digit s = CHR '' '' # r"
    and ug: "unit_group (takeWhile is_word r) = Some u"
    by (auto simp: frequency_match_def Let_def split: if_splits list.splits option.splits)
  from ug obtain v where tw: "takeWhile is_word r = u @ v" and len: "2 \<le> length u"
    and l: "last u = CHR ''s''" and v: "CHR ''s'' \<notin> set v"
    unfolding unit_group_iff by blast
  let ?tl = "v @ dropWhile is_word r"
  have "s = takeWhile is_digit s @ dropWhile is_digit s" by simp
  also have "\<dots> = ds @ CHR '' '' # (takeWhile is_word r @ dropWhile is_word r)"
    unfolding ds r by simp
  finally have s: "s = ds @ CHR '' '' # u @ ?tl" unfolding tw by simp
  have allw: "\<forall>c\<in>set (u @ v). is_word c" using set_takeWhileD[of _ is_word r] unfolding tw[symmetric] by blast
  have "takeWhile is_word ?tl = v @ takeWhile is_word (dropWhile is_word r)"
    using allw by (simp add: takeWhile_append2)
  also have "takeWhile is_word (dropWhile is_word r) = []"
  proof (cases "dropWhile is_word r")
    case Nil
    then show ?thesis by (simp only: takeWhile.simps)
  next
    case (Cons a l)
    then have "dropWhile is_word r \<noteq> []" by (simp only: list.distinct not_False_eq_True)
    then have "\<not> is_word (hd (dropWhile is_word r))" by (rule hd_dropWhile)
    then have "\<not> is_word a" unfolding Cons by simp
    then show ?thesis unfolding Cons by simp
  qed
  finally have tl: "CHR ''s'' \<notin> set (takeWhile is_word ?tl)" using v by simp
  have dd: "list_all is_digit ds" unfolding ds list_all_iff using set_takeWhileD[of _ is_digit s] by blast
  have uw: "list_all is_word u" unfolding list_all_iff using allw by simp
  from dne dd s len l uw tl show "ds \<noteq> [] \<and> list_all is_digit ds \<and>
   (\<exists>tl. s = ds @ CHR '' '' # u @ tl \<and> 2 \<le> length u \<and> last u = CHR ''s'' \<and>
         list_all is_word u \<and> CHR ''s'' \<notin> set (takeWhile is_word tl))" by blast
next
  assume "ds \<noteq> [] \<and> list_all is_digit ds \<and>
   (\<exists>tl. s = ds @ CHR '' '' # u @ tl \<and> 2 \<le> length u \<and> last u = CHR ''s'' \<and>
         list_all is_word u \<and> CHR ''s'' \<notin> set (takeWhile is_word tl))"
  then obtain tl where dne: "ds \<noteq> []" and dd: "list_all is_digit ds"
    and s: "s = ds @ CHR '' '' # u @ tl" and len: "2 \<le> length u" and l: "last u = CHR ''s''"
    and uw: "list_all is_word u" and tl: "CHR ''s'' \<notin> set (takeWhile is_word tl)" by blast
  from dd have dd': "\<And>x. x \<in> set ds \<Longrightarrow> is_digit x" by (simp add: list_all_iff)
  from uw have uw': "\<And>x. x \<in> set u \<Longrightarrow> is_word x" by (simp add: list_all_iff)
  have t1: "takeWhile is_digit s = ds"
    unfolding s using dd' by (simp add: takeWhile_append2 not_digit_space)
  have t2: "dropWhile is_digit s = CHR '' '' # u @ tl"
    unfolding s using dd' by (simp add: dropWhile_append2 not_digit_space)
  have t3: "takeWhile is_word (u @ tl) = u @ takeWhile is_word tl"
    using uw' by (simp add: takeWhile_append2)
  have t4: "unit_group (u @ takeWhile is_word tl) = Some u"
    unfolding unit_group_iff using len l tl by blast
  show "frequency_match s = Some (ds, u)"
    by (simp add: frequency_match_def Let_def t1 t2 t3 t4 dne)
qed

lemma unit_microseconds_shape:
  assumes "unit_microseconds u = Some f"
  shows "2 \<le> length u \<and> last u = CHR ''s'' \<and> list_all is_word u \<and> 0 < f"
proof -
  from assms have "u \<in> {''days'', ''seconds'', ''microseconds'', ''milliseconds'', ''minutes'', ''hours'', ''weeks''} \<and> 0 < f"
    by (auto simp: unit_microseconds_def split: if_splits)
  then show ?thesis by (auto simp: is_word_def)
qed

lemma int_of_digits_nonneg_aux: "0 \<le> a \<Longrightarrow> 0 \<le> foldl (\<lambda>acc c. 10 * acc + digit_value c) a s"
  by (induction s arbitrary: a) (auto simp: digit_value_def)

lemma int_of_digits_nonneg: "0 \<le> int_of_digits s"
  unfolding int_of_digits_def by (rule int_of_digits_nonneg_aux) simp

lemma timedelta_iff:
  "0 \<le> n \<Longrightarrow> timedelta u n = Inr d \<longleftrightarrow>
     (\<exists>f. unit_microseconds u = Some f \<and> (n * f) div 86400000000 \<le> 999999999 \<and> d = n * f)"
proof -
  assume n: "0 \<le> n"
  have "- 999999999 \<le> (n * f) div 86400000000" if "unit_microseconds u = Some f" for f
  proof -
    from that have "0 < f" using unit_microseconds_shape by blast
    with n have "0 \<le> n * f" by simp
    then have "0 \<le> (n * f) div 86400000000" by (simp add: pos_imp_zdiv_nonneg_iff)
    then show ?thesis by simp
  qed
  then show ?thesis
    by (auto simp: timedelta_def split: option.splits)
qed

lemma frequency_match_shape:
  "frequency_match s = Some (ds, u) \<longleftrightarrow> (\<exists>rest. frequency_shape s ds u rest)"
  unfolding frequency_match_iff frequency_shape_def by blast

lemma frequency_match_None:
  "frequency_match s = None \<longleftrightarrow> \<not> (\<exists>ds u rest. frequency_shape s ds u rest)"
proof -
  have "frequency_match s = None \<longleftrightarrow> \<not> (\<exists>ds u. frequency_match s = Some (ds, u))"
    by (cases "frequency_match s") auto
  then show ?thesis unfolding frequency_match_shape by blast
qed

lemma timedelta_overflow_iff:
  "0 \<le> n \<Longrightarrow> timedelta u n = Inl err \<longleftrightarrow>
     (err = TypeError \<and> unit_microseconds u = None) \<or>
     (err = OverflowError \<and> (\<exists>f. unit_microseconds u = Some f \<and> 999999999 < (n * f) div 86400000000))"
proof -
  assume n: "0 \<le> n"
  have low: "- 999999999 \<le> (n * f) div 86400000000" if "unit_microseconds u = Some f" for f
  proof -
    from that have "0 < f" using unit_microseconds_shape by blast
    with n have "0 \<le> n * f" by simp
    then have "0 \<le> (n * f) div 86400000000" by (simp add: pos_imp_zdiv_nonneg_iff)
    then show ?thesis by simp
  qed
  show ?thesis
  proof (cases "unit_microseconds u")
    case None
    then show ?thesis by (auto simp: timedelta_def)
  next
    case (Some f)
    with low[OF Some] show ?thesis by (auto simp: timedelta_def)
  qed
qed

text \<open>
  Claim C6, as the code has it. \<^verbatim>\<open>parse_period\<close> returns 15 minutes, 3 hours and 1 day
  for \<^verbatim>\<open>"15 minutes"\<close>, \<^verbatim>\<open>"3 hours"\<close> and \<^verbatim>\<open>"1 days"\<close>, and raises its \<^verbatim>\<open>ValueError\<close>
  for \<^verbatim>\<open>"abc"\<close>. It succeeds exactly for the strings that start with digits, one space
  and one of the seven keyword arguments of \<^verbatim>\<open>timedelta\<close>, where the word characters
  that follow the unit contain no further \<open>s\<close> and the duration is at most 999999999
  days. Every other string fails: with \<^verbatim>\<open>ValueError\<close> and the message naming the string
  when it does not start with the pattern, with \<^verbatim>\<open>TypeError\<close> when the unit is not a
  keyword of \<^verbatim>\<open>timedelta\<close>, with \<^verbatim>\<open>OverflowError\<close> when the duration is out of range.
  Durations are in microseconds.
\<close>

theorem parse_period_accepts:
  "parse_period (PStr ''15 minutes'') = Inr (15 * 60000000) \<and>
   parse_period (PStr ''3 hours'') = Inr (3 * 3600000000) \<and>
   parse_period (PStr ''1 days'') = Inr 86400000000 \<and>
   parse_period (PStr ''abc'') =
     Inl (ValueError (CHR 0x27 # ''abc'' @ CHR 0x27 # '' cannot be parsed as a period'')) \<and>
   ((parse_period (PStr s) = Inr d) =
    (\<exists>ds u rest f. frequency_shape s ds u rest \<and> unit_microseconds u = Some f \<and>
       (int_of_digits ds * f) div 86400000000 \<le> 999999999 \<and> d = int_of_digits ds * f)) \<and>
   ((parse_period (PStr s) = Inl err) =
    ((err = ValueError (CHR 0x27 # s @ CHR 0x27 # '' cannot be parsed as a period'') \<and>
      (\<forall>ds u rest. \<not> frequency_shape s ds u rest)) \<or>
     (err = TypeError \<and>
      (\<exists>ds u rest. frequency_shape s ds u rest \<and> unit_microseconds u = None)) \<or>
     (err = OverflowError \<and>
      (\<exists>ds u rest f. frequency_shape s ds u rest \<and> unit_microseconds u = Some f \<and>
         999999999 < (int_of_digits ds * f) div 86400000000))))"
proof -
  have e1: "parse_period (PStr ''15 minutes'') = Inr (15 * 60000000)" by code_simp
  have e2: "parse_period (PStr ''3 hours'') = Inr (3 * 3600000000)" by code_simp
  have e3: "parse_period (PStr ''1 days'') = Inr 86400000000" by code_simp
  have e4: "parse_period (PStr ''abc'') =
     Inl (ValueError (CHR 0x27 # ''abc'' @ CHR 0x27 # '' cannot be parsed as a period''))"
    by (simp add: frequency_match_def is_digit_def)
  have ok: "(parse_period (PStr s) = Inr d) =
    (\<exists>ds u rest f. frequency_shape s ds u rest \<and> unit_microseconds u = Some f \<and>
       (int_of_digits ds * f) div 86400000000 \<le> 999999999 \<and> d = int_of_digits ds * f)"
    (is "?L = ?R")
  proof
    assume ?L
    then obtain ds u where fm: "frequency_match s = Some (ds, u)"
      and td: "timedelta u (int_of_digits ds) = Inr d"
      by (auto split: option.splits)
    from td obtain f where f: "unit_microseconds u = Some f"
      "(int_of_digits ds * f) div 86400000000 \<le> 999999999" "d = int_of_digits ds * f"
      using timedelta_iff[OF int_of_digits_nonneg] by blast
    from fm obtain rest where "frequency_shape s ds u rest" unfolding frequency_match_shape by blast
    with f show ?R by blast
  next
    assume ?R
    then obtain ds u rest f where sh: "frequency_shape s ds u rest"
      and f: "unit_microseconds u = Some f"
      and r: "(int_of_digits ds * f) div 86400000000 \<le> 999999999" "d = int_of_digits ds * f"
      by blast
    from sh have "frequency_match s = Some (ds, u)" unfolding frequency_match_shape by blast
    moreover from f r have "timedelta u (int_of_digits ds) = Inr d"
      using timedelta_iff[OF int_of_digits_nonneg] by blast
    ultimately show ?L by simp
  qed
  have bad: "(parse_period (PStr s) = Inl err) =
    ((err = ValueError (CHR 0x27 # s @ CHR 0x27 # '' cannot be parsed as a period'') \<and>
      (\<forall>ds u rest. \<not> frequency_shape s ds u rest)) \<or>
     (err = TypeError \<and>
      (\<exists>ds u rest. frequency_shape s ds u rest \<and> unit_microseconds u = None)) \<or>
     (err = OverflowError \<and>
      (\<exists>ds u rest f. frequency_shape s ds u rest \<and> unit_microseconds u = Some f \<and>
         999999999 < (int_of_digits ds * f) div 86400000000)))"
  proof (cases "frequency_match s")
    case None
    then have no: "\<forall>ds u rest. \<not> frequency_shape s ds u rest"
      unfolding frequency_match_None by blast
    from None have "parse_period (PStr s) =
        Inl (ValueError (CHR 0x27 # s @ CHR 0x27 # '' cannot be parsed as a period''))"
      by simp
    with no show ?thesis by auto
  next
    case (Some m)
    obtain ds u where m: "m = (ds, u)" by (cases m)
    from Some m have fm: "frequency_match s = Some (ds, u)" by simp
    then obtain rest where sh: "frequency_shape s ds u rest"
      unfolding frequency_match_shape by blast
    have uniq: "ds' = ds \<and> u' = u" if "frequency_shape s ds' u' rest'" for ds' u' rest'
    proof -
      from that have "frequency_match s = Some (ds', u')" unfolding frequency_match_shape by blast
      with fm show ?thesis by simp
    qed
    have pp: "parse_period (PStr s) = timedelta u (int_of_digits ds)" using fm by simp
    show ?thesis
      unfolding pp timedelta_overflow_iff[OF int_of_digits_nonneg]
      using sh uniq by blast
  qed
  from e1 e2 e3 e4 ok bad show ?thesis by blast
qed

text \<open>
  The claim C6 as stated fails in both directions: a string that is longer than
  \<^verbatim>\<open><integer> <unit>\<close> is accepted when it starts that way, and a string of exactly
  that shape with a supported unit fails when the number is too large.
\<close>

theorem parse_period_counterexample:
  "parse_period (PStr ''15 minutes ago'') = Inr (15 * 60000000) \<and>
   parse_period (PStr ''9999999999 days'') = Inl OverflowError"
  by code_simp

section \<open>Properties of the schedule arithmetic\<close>

lemma future_loop_steps:
  "0 < delta \<Longrightarrow> 0 \<le> dt \<Longrightarrow> (\<forall>j<n. dt + int j * delta < now) \<Longrightarrow> now \<le> dt + int n * delta \<Longrightarrow>
   future_loop now delta dt =
     Some (if n = 0 \<or> dt + int n * delta < datetime_max then Inr (dt + int n * delta) else Inl OverflowError)"
proof (induction n arbitrary: dt)
  case 0
  then show ?case by (subst future_loop.simps) simp
next
  case (Suc n)
  from Suc.prems(3) have lt: "dt < now" by force
  have nn: "0 \<le> dt + delta" using Suc.prems(1,2) by simp
  have mono: "dt + delta \<le> dt + int (Suc n) * delta"
    using Suc.prems(1) by (simp add: algebra_simps)
  show ?case
  proof (cases "dt + delta < datetime_max")
    case True
    have a: "\<forall>j<n. (dt + delta) + int j * delta < now"
    proof (intro allI impI)
      fix j assume "j < n"
      then have "dt + int (Suc j) * delta < now" using Suc.prems(3) by (meson Suc_less_eq)
      then show "(dt + delta) + int j * delta < now" by (simp add: algebra_simps)
    qed
    have b: "now \<le> (dt + delta) + int n * delta" using Suc.prems(4) by (simp add: algebra_simps)
    have ih: "future_loop now delta (dt + delta) =
      Some (if n = 0 \<or> dt + delta + int n * delta < datetime_max then Inr (dt + delta + int n * delta) else Inl OverflowError)"
      by (rule Suc.IH[OF Suc.prems(1) nn a b])
    have eq: "dt + delta + int n * delta = dt + int (Suc n) * delta" by (simp add: algebra_simps)
    have step: "future_loop now delta dt = future_loop now delta (dt + delta)"
      by (subst future_loop.simps) (simp add: lt True nn datetime_add_def)
    show ?thesis
      unfolding step ih eq using True by (cases "n = 0") simp_all
  next
    case False
    have step: "future_loop now delta dt = Some (Inl OverflowError)"
      by (subst future_loop.simps) (simp add: lt False datetime_add_def)
    from False mono have "\<not> dt + int (Suc n) * delta < datetime_max" by linarith
    then show ?thesis unfolding step by simp
  qed
qed

lemma least_multiple:
  assumes "0 < (delta::int)"
  shows "\<exists>n::nat. (\<forall>j<n. dt + int j * delta < now) \<and> now \<le> dt + int n * delta"
proof -
  let ?Q = "\<lambda>n::nat. now \<le> dt + int n * delta"
  have "?Q (nat (now - dt))"
  proof (cases "now \<le> dt")
    case True then show ?thesis by simp
  next
    case False
    then have pos: "0 \<le> now - dt" by simp
    from assms have "1 \<le> delta" by simp
    with pos have "(now - dt) * 1 \<le> (now - dt) * delta" by (rule mult_left_mono[rotated])
    moreover have "int (nat (now - dt)) = now - dt" using pos by simp
    ultimately show ?thesis by simp
  qed
  then have L: "?Q (LEAST n. ?Q n)" by (rule LeastI)
  have "\<forall>j<(LEAST n. ?Q n). dt + int j * delta < now"
    using not_less_Least[of _ ?Q] by force
  with L show ?thesis by blast
qed

lemma future_loop_stuck:
  assumes "future_loop n d t = Some y"
  shows "\<not> (d = 0 \<and> t < n \<and> 0 \<le> t \<and> t < datetime_max)"
proof (rule future_loop.raw_induct[where P = "\<lambda>n d t y. \<not> (d = 0 \<and> t < n \<and> 0 \<le> t \<and> t < datetime_max)", OF _ assms])
  fix f :: "int \<Rightarrow> int \<Rightarrow> int \<Rightarrow> (error + int) option" and now delta dt y
  assume IH: "\<And>n d t y. f n d t = Some y \<Longrightarrow> \<not> (d = 0 \<and> t < n \<and> 0 \<le> t \<and> t < datetime_max)"
    and eq: "(if dt < now then case datetime_add dt delta of Inl e \<Rightarrow> Some (Inl e) | Inr dt' \<Rightarrow> f now delta dt' else Some (Inr dt)) = Some y"
  show "\<not> (delta = 0 \<and> dt < now \<and> 0 \<le> dt \<and> dt < datetime_max)"
  proof
    assume a: "delta = 0 \<and> dt < now \<and> 0 \<le> dt \<and> dt < datetime_max"
    then have "datetime_add dt delta = Inr dt" by (simp add: datetime_add_def)
    with eq a have "f now delta dt = Some y" by simp
    from IH[OF this] a show False by simp
  qed
qed

lemma future_loop_zero:
  assumes "dt < now" "0 \<le> dt" "dt < datetime_max"
  shows "future_loop now 0 dt = None"
proof (cases "future_loop now 0 dt")
  case (Some y)
  then show ?thesis using future_loop_stuck[OF Some] assms by simp
qed simp

lemma parse_period_nonneg: "parse_period p = Inr delta \<Longrightarrow> 0 \<le> delta"
proof (cases p)
  case (PStr s)
  assume a: "parse_period p = Inr delta"
  have n: "0 \<le> int_of_digits x" for x by (rule int_of_digits_nonneg)
  from a PStr show ?thesis
    by (auto simp: timedelta_def unit_microseconds_def split: option.splits if_splits prod.splits intro: n mult_nonneg_nonneg)
qed auto

lemma future_loop_least:
  assumes "0 < delta" and "0 \<le> dt"
  shows "\<exists>k::nat. (\<forall>j<k. dt + int j * delta < now) \<and> now \<le> dt + int k * delta \<and>
           future_loop now delta dt =
             Some (if k = 0 \<or> dt + int k * delta < datetime_max
                   then Inr (dt + int k * delta) else Inl OverflowError)"
proof -
  from least_multiple[OF assms(1)] obtain k :: nat
    where below: "\<forall>j<k. dt + int j * delta < now" and reach: "now \<le> dt + int k * delta"
    by blast
  from future_loop_steps[OF assms(1) assms(2) below reach] below reach show ?thesis by blast
qed

lemma parse_one_day: "parse_period (PStr ''1 days'') = Inr 86400000000"
  by code_simp

lemma parse_max_days: "parse_period (PStr ''999999999 days'') = Inr (999999999 * 86400000000)"
  by code_simp

lemma parse_zero_minutes: "parse_period (PStr ''0 minutes'') = Inr 0"
  by code_simp

lemma periods_needed_least:
  assumes "0 < delta"
  shows "(\<forall>j<periods_needed now delta dt. dt + int j * delta < now) \<and>
         now \<le> dt + int (periods_needed now delta dt) * delta"
proof (cases "dt < now")
  case False
  then show ?thesis by (simp add: periods_needed_def)
next
  case True
  define a where "a = now - dt"
  define q where "q = (a + delta - 1) div delta"
  have apos: "0 < a" using True by (simp add: a_def)
  have k: "periods_needed now delta dt = nat q" using True by (simp add: periods_needed_def q_def a_def)
  have le: "q * delta \<le> a + delta - 1"
    unfolding q_def using assms by (metis div_mult_mod_eq add.commute le_add_same_cancel1 pos_mod_sign mult.commute)
  have gt: "a + delta - 1 < (q + 1) * delta"
  proof -
    have "a + delta - 1 = q * delta + (a + delta - 1) mod delta" unfolding q_def by simp
    moreover have "(a + delta - 1) mod delta < delta" using assms by simp
    ultimately show ?thesis by (simp add: algebra_simps)
  qed
  have qpos: "0 < q"
  proof (rule ccontr)
    assume "\<not> 0 < q"
    then have "q + 1 \<le> 1" by simp
    then have "(q + 1) * delta \<le> 1 * delta" using assms by (intro mult_right_mono) simp_all
    with gt apos show False by simp
  qed
  have reach: "a \<le> q * delta" using gt by (simp add: algebra_simps)
  have below: "int j * delta < a" if "j < nat q" for j
  proof -
    from that qpos have "int j + 1 \<le> q" by simp
    then have "(int j + 1) * delta \<le> q * delta" using assms by (intro mult_right_mono) simp_all
    with le show ?thesis by (simp add: algebra_simps)
  qed
  have r: "now \<le> dt + int (nat q) * delta" using reach qpos by (simp add: a_def)
  have b: "\<forall>j<nat q. dt + int j * delta < now"
  proof (intro allI impI)
    fix j assume "j < nat q"
    from below[OF this] show "dt + int j * delta < now" by (simp add: a_def)
  qed
  from r b show ?thesis unfolding k by blast
qed


lemma strptime_whole: "strptime e t = Inr dt \<Longrightarrow> 1000000 dvd dt"
  by (auto simp: strptime_def split: sum.splits)

lemma parse_one_microsecond: "parse_period (PStr ''1 microseconds'') = Inr 1"
  by code_simp

text \<open>
  Claim C5, as the code has it. Take a timestamp that parses to an instant \<open>dt\<close> of the
  calendar and a period \<open>delta > 0\<close> of whole seconds, and let \<open>k\<close> be the number of
  periods needed. Then \<open>k\<close> is the least number with \<open>dt + k * delta \<ge> now\<close>, it is 0
  when the timestamp is not before now (also when it equals now), and, where the
  library reads back the whole seconds it writes, \<^verbatim>\<open>adjusted_to_future\<close> returns a
  timestamp that denotes exactly \<open>dt + k * delta\<close>; for \<open>k = 0\<close> and a timestamp in the
  form the library writes, it is the given text. When \<open>dt + k * delta\<close> lies beyond
  the year 9999 the addition raises \<^verbatim>\<open>OverflowError\<close> instead.
\<close>

theorem adjusted_to_future_least:
  assumes "strptime e t = Inr dt" and "0 \<le> dt" and "parse_period p = Inr delta" and "0 < delta"
    and "1000000 dvd delta"
    and "k = periods_needed (utcnow e) delta dt"
    and "parse_seconds e (format_seconds e ((dt + int k * delta) div 1000000)) =
           Inr ((dt + int k * delta) div 1000000)"
  shows "(\<forall>j<k. dt + int j * delta < utcnow e) \<and> utcnow e \<le> dt + int k * delta \<and>
         (utcnow e \<le> dt \<longrightarrow> k = 0) \<and>
         (\<exists>r. adjusted_to_future e (PStr t) p =
                 Some (if k = 0 \<or> dt + int k * delta < datetime_max
                       then Inr (PStr r) else Inl OverflowError) \<and>
              strptime e r = Inr (dt + int k * delta) \<and>
              (k = 0 \<and> format_seconds e (dt div 1000000) = t \<longrightarrow> r = t))"
proof -
  from periods_needed_least[OF assms(4), of "utcnow e" dt] assms(6)
  have below: "\<forall>j<k. dt + int j * delta < utcnow e" and reach: "utcnow e \<le> dt + int k * delta"
    by simp_all
  have zero: "utcnow e \<le> dt \<longrightarrow> k = 0"
    using assms(6) by (simp add: periods_needed_def)
  have loop: "future_loop (utcnow e) delta dt =
      Some (if k = 0 \<or> dt + int k * delta < datetime_max then Inr (dt + int k * delta) else Inl OverflowError)"
    by (rule future_loop_steps[OF assms(4) assms(2) below reach])
  let ?r = "strftime e (dt + int k * delta)"
  have run: "adjusted_to_future e (PStr t) p =
             Some (if k = 0 \<or> dt + int k * delta < datetime_max
                   then Inr (PStr ?r) else Inl OverflowError)"
    unfolding adjusted_to_future_def by (simp add: assms(1) assms(3) loop)
  have "1000000 dvd dt + int k * delta"
    using strptime_whole[OF assms(1)] assms(5) by simp
  then have whole: "(dt + int k * delta) div 1000000 * 1000000 = dt + int k * delta"
    by simp
  have roundtrip: "strptime e ?r = Inr (dt + int k * delta)"
    unfolding strptime_def strftime_def by (simp add: assms(7) whole)
  have same: "k = 0 \<and> format_seconds e (dt div 1000000) = t \<longrightarrow> ?r = t"
    by (simp add: strftime_def)
  from below reach zero run roundtrip same show ?thesis by blast
qed

text \<open>The theorem at 2014-01-01T00:00:00 with a period of one day, read one microsecond
  after the start of 2014-01-02: the result denotes the start of 2014-01-03.\<close>

theorem adjusted_to_future_least_witness:
  "utcnow (calendar_env january_2014 (735234 * 86400000000 + 1))
     \<le> 735233 * 86400000000 + int 2 * 86400000000 \<and>
   (\<exists>r. adjusted_to_future (calendar_env january_2014 (735234 * 86400000000 + 1))
            (PStr ''2014-01-01T00:00:00'') (PStr ''1 days'') = Some (Inr (PStr r)) \<and>
        strptime (calendar_env january_2014 (735234 * 86400000000 + 1)) r =
          Inr (735233 * 86400000000 + int 2 * 86400000000))"
proof -
  let ?e = "calendar_env january_2014 (735234 * 86400000000 + 1)"
  have h1: "strptime ?e ''2014-01-01T00:00:00'' = Inr (735233 * 86400000000)"
    by (simp add: calendar_env_def january_2014_def strptime_def)
  have h2: "(0::int) \<le> 735233 * 86400000000" by simp
  have h4: "(0::int) < 86400000000" by simp
  have h5: "(1000000::int) dvd 86400000000" by simp
  have h6: "(2::nat) = periods_needed (utcnow ?e) 86400000000 (735233 * 86400000000)"
    by (simp add: periods_needed_def calendar_env_def)
  have h7: "parse_seconds ?e (format_seconds ?e ((735233 * 86400000000 + int 2 * 86400000000) div 1000000)) =
      Inr ((735233 * 86400000000 + int 2 * 86400000000) div 1000000)"
    by (simp add: calendar_env_def january_2014_def)
  have small: "735233 * 86400000000 + int 2 * 86400000000 < datetime_max"
    by (simp add: datetime_max_def)
  from adjusted_to_future_least[OF h1 h2 parse_one_day h4 h5 h6 h7] small
  show ?thesis by auto
qed

text \<open>
  The claim C5 as stated fails. A timestamp equal to the current instant is returned
  unchanged, so the result is not strictly after now (the claim asks for one period
  more). A period of one microsecond, read three microseconds after the timestamp, is
  added three times and the microseconds are then dropped by the format: the timestamp
  returned is the one given, which is before now. A period of 999999999 days added to a
  past timestamp raises \<^verbatim>\<open>OverflowError\<close>.
\<close>

theorem adjusted_to_future_counterexample:
  "adjusted_to_future (calendar_env january_2014 (735233 * 86400000000))
       (PStr ''2014-01-01T00:00:00'') (PStr ''1 days'') = Some (Inr (PStr ''2014-01-01T00:00:00'')) \<and>
   strptime (calendar_env january_2014 (735233 * 86400000000)) ''2014-01-01T00:00:00'' =
     Inr (utcnow (calendar_env january_2014 (735233 * 86400000000))) \<and>
   adjusted_to_future (calendar_env january_2014 (735233 * 86400000000 + 3))
       (PStr ''2014-01-01T00:00:00'') (PStr ''1 microseconds'') = Some (Inr (PStr ''2014-01-01T00:00:00'')) \<and>
   strptime (calendar_env january_2014 (735233 * 86400000000 + 3)) ''2014-01-01T00:00:00'' =
     Inr (735233 * 86400000000) \<and>
   735233 * 86400000000 < utcnow (calendar_env january_2014 (735233 * 86400000000 + 3)) \<and>
   adjusted_to_future (calendar_env january_2014 (735234 * 86400000000))
       (PStr ''2014-01-01T00:00:00'') (PStr ''999999999 days'') = Some (Inl OverflowError)"
proof -
  have s: "strptime (calendar_env january_2014 now) ''2014-01-01T00:00:00'' = Inr (735233 * 86400000000)" for now
    by (simp add: calendar_env_def january_2014_def strptime_def)
  have u: "utcnow (calendar_env january_2014 now) = now" for now
    by (simp add: calendar_env_def)
  have c1: "adjusted_to_future (calendar_env january_2014 (735233 * 86400000000))
       (PStr ''2014-01-01T00:00:00'') (PStr ''1 days'') = Some (Inr (PStr ''2014-01-01T00:00:00''))"
    by (simp add: adjusted_to_future_def s u parse_one_day del: parse_period.simps,
        subst future_loop.simps, simp add: calendar_env_def january_2014_def strftime_def)
  have c2: "strptime (calendar_env january_2014 (735233 * 86400000000)) ''2014-01-01T00:00:00'' =
     Inr (utcnow (calendar_env january_2014 (735233 * 86400000000)))"
    by (simp add: s u)
  have c3: "adjusted_to_future (calendar_env january_2014 (735233 * 86400000000 + 3))
       (PStr ''2014-01-01T00:00:00'') (PStr ''1 microseconds'') = Some (Inr (PStr ''2014-01-01T00:00:00''))"
    by (simp add: adjusted_to_future_def s u parse_one_microsecond del: parse_period.simps,
        subst future_loop.simps, simp add: datetime_add_def datetime_max_def,
        subst future_loop.simps, simp add: datetime_add_def datetime_max_def,
        subst future_loop.simps, simp add: datetime_add_def datetime_max_def,
        subst future_loop.simps, simp add: calendar_env_def january_2014_def strftime_def)
  have c4: "735233 * 86400000000 < utcnow (calendar_env january_2014 (735233 * 86400000000 + 3))"
    by (simp add: u)
  have c5: "adjusted_to_future (calendar_env january_2014 (735234 * 86400000000))
       (PStr ''2014-01-01T00:00:00'') (PStr ''999999999 days'') = Some (Inl OverflowError)"
    by (simp add: adjusted_to_future_def s u parse_max_days del: parse_period.simps,
        subst future_loop.simps, simp add: datetime_add_def datetime_max_def)
  from c1 c2 c3 s c4 c5 show ?thesis by blast
qed

text \<open>
  Claim C10. For a timestamp of the calendar and a period that parses,
  \<^verbatim>\<open>adjusted_to_future\<close> returns or raises exactly when the period is positive or the
  timestamp is not before now; \<^verbatim>\<open>parse_period\<close> accepts \<^verbatim>\<open>"0 minutes"\<close> as the zero
  duration; and \<^verbatim>\<open>Pipeline.__init__\<close> does not return on a \<^verbatim>\<open>values.json\<close> whose
  \<^verbatim>\<open>myStartDateTime\<close> is in the past and whose \<^verbatim>\<open>mySchedulePeriod\<close> is \<^verbatim>\<open>"0 minutes"\<close>.
\<close>

theorem adjusted_to_future_terminates_iff:
  assumes "strptime e t = Inr dt" and "0 \<le> dt" and "dt < datetime_max"
    and "parse_period p = Inr delta"
    and "map_of vs ''myStartDateTime'' = Some (PStr t)"
    and "map_of vs ''mySchedulePeriod'' = Some (PStr ''0 minutes'')"
  shows "((\<exists>r. adjusted_to_future e (PStr t) p = Some r) = (0 < delta \<or> utcnow e \<le> dt)) \<and>
         parse_period (PStr ''0 minutes'') = Inr 0 \<and>
         (dt < utcnow e \<longrightarrow>
            Pipeline_init e template dirpath (PDict [(''metadata'', PDict md), (''values'', PDict vs)]) = None)"
proof -
  have zero: "parse_period (PStr ''0 minutes'') = Inr 0" by (rule parse_zero_minutes)
  have nonneg: "0 \<le> delta" using assms(4) by (rule parse_period_nonneg)
  have unf: "adjusted_to_future e (PStr t) p =
      (case future_loop (utcnow e) delta dt of None \<Rightarrow> None
       | Some (Inl err) \<Rightarrow> Some (Inl err) | Some (Inr dt') \<Rightarrow> Some (Inr (PStr (strftime e dt'))))"
    unfolding adjusted_to_future_def by (simp add: assms(1) assms(4))
  have iff: "(\<exists>r. adjusted_to_future e (PStr t) p = Some r) = (0 < delta \<or> utcnow e \<le> dt)"
  proof (cases "0 < delta")
    case True
    from future_loop_least[OF True assms(2)] obtain r
      where "future_loop (utcnow e) delta dt = Some r" by blast
    then show ?thesis using True unf by (cases r) simp_all
  next
    case False
    with nonneg have d0: "delta = 0" by simp
    show ?thesis
    proof (cases "utcnow e \<le> dt")
      case True
      then have "future_loop (utcnow e) delta dt = Some (Inr dt)"
        by (subst future_loop.simps) simp
      then show ?thesis using True unf by simp
    next
      case nb: False
      then have "future_loop (utcnow e) 0 dt = None"
        using assms(2,3) by (intro future_loop_zero) simp_all
      then show ?thesis using nb d0 unf by simp
    qed
  qed
  have init: "dt < utcnow e \<longrightarrow>
            Pipeline_init e template dirpath (PDict [(''metadata'', PDict md), (''values'', PDict vs)]) = None"
  proof
    assume past: "dt < utcnow e"
    have "future_loop (utcnow e) 0 dt = None" using past assms(2,3) by (rule future_loop_zero)
    then have "adjusted_to_future e (PStr t) (PStr ''0 minutes'') = None"
      unfolding adjusted_to_future_def by (simp add: assms(1) zero del: parse_period.simps)
    then show "Pipeline_init e template dirpath (PDict [(''metadata'', PDict md), (''values'', PDict vs)]) = None"
      unfolding Pipeline_init_def
      by (simp add: assms(5) assms(6) split: option.splits)
  qed
  from iff zero init show ?thesis by blast
qed

text \<open>The theorem on 2014-01-02 for the timestamp 2014-01-01T00:00:00.\<close>

theorem adjusted_to_future_terminates_iff_witness:
  "((\<exists>r. adjusted_to_future (calendar_env january_2014 (735234 * 86400000000)) (PStr ''2014-01-01T00:00:00'') (PStr ''0 minutes'') = Some r) =
      ((0::int) < 0 \<or> utcnow (calendar_env january_2014 (735234 * 86400000000)) \<le> 735233 * 86400000000)) \<and>
   parse_period (PStr ''0 minutes'') = Inr 0 \<and>
   Pipeline_init (calendar_env january_2014 (735234 * 86400000000)) hourly_definition ''pipelines/hourly''
     (PDict [(''metadata'', PDict []),
             (''values'', PDict [(''myStartDateTime'', PStr ''2014-01-01T00:00:00''),
                                 (''mySchedulePeriod'', PStr ''0 minutes'')])]) = None"
proof -
  have h1: "strptime (calendar_env january_2014 (735234 * 86400000000)) ''2014-01-01T00:00:00'' = Inr (735233 * 86400000000)"
    by (simp add: calendar_env_def january_2014_def strptime_def strftime_def)
  have h2: "(0::int) \<le> 735233 * 86400000000" by simp
  have h3: "735233 * 86400000000 < datetime_max" by (simp add: datetime_max_def)
  have h4: "parse_period (PStr ''0 minutes'') = Inr 0" by (rule parse_zero_minutes)
  have h5: "map_of [(''myStartDateTime'', PStr ''2014-01-01T00:00:00''), (''mySchedulePeriod'', PStr ''0 minutes'')] ''myStartDateTime'' = Some (PStr ''2014-01-01T00:00:00'')"
    by simp
  have h6: "map_of [(''myStartDateTime'', PStr ''2014-01-01T00:00:00''), (''mySchedulePeriod'', PStr ''0 minutes'')] ''mySchedulePeriod'' = Some (PStr ''0 minutes'')"
    by simp
  have past: "735233 * 86400000000 < utcnow (calendar_env january_2014 (735234 * 86400000000))"
    by (simp add: calendar_env_def)
  from adjusted_to_future_terminates_iff[OF h1 h2 h3 h4 h5 h6, of hourly_definition "''pipelines/hourly''" "[]"] past
  show ?thesis by blast
qed

section \<open>Properties of the response lookup\<close>

text \<open>
  Claim C9 at the response of the docstring, asked for a field it does not have. The
  claim says that the lookup raises a \<^verbatim>\<open>ValueError\<close> naming the field and the response;
  the code raises \<^verbatim>\<open>NameError\<close>, since the message refers to the unbound name
  \<^verbatim>\<open>response\<close>.
\<close>

theorem fetch_field_value_missing:
  "fetch_field_value
     (PDict [(''fields'', PList [PDict [(''key'', PStr ''someKey''), (''stringValue'', PStr ''someValue'')]])])
     ''@pipelineState'' = Inl (NameError ''response'')"
  by (simp add: fetch_field_value_def)

section \<open>Properties of a single activation\<close>

lemma calls_logging [simp]: "calls (logging lv msg args w) = calls w"
  by (simp add: logging_def)

lemma calls_py_print [simp]: "calls (py_print args w) = calls w"
  by (simp add: py_print_def)

lemma remote_logging [simp]: "remote (logging lv msg args w) = remote w"
  by (simp add: logging_def)

lemma remote_py_print [simp]: "remote (py_print args w) = remote w"
  by (simp add: py_print_def)

lemma call_calls: "call conn rq w = (r, w1) \<Longrightarrow> calls w1 = calls w @ [rq]"
  by (auto simp: call_def split: prod.splits)

lemma create_calls:
  "create conn p w = (r, w1) \<Longrightarrow>
   calls w1 = calls w @ [Create_pipeline (name p) (unique_id p) (description p)]"
  by (auto simp: create_def split: prod.splits sum.splits dest: call_calls)

lemma definition_from_id_calls:
  "definition_from_id conn tr i w = (r, w1) \<Longrightarrow> calls w1 = calls w @ [Get_pipeline_definition i]"
  by (auto simp: definition_from_id_def split: prod.splits sum.splits dest: call_calls)

lemma state_from_id_calls:
  "state_from_id conn i w = (r, w1) \<Longrightarrow> calls w1 = calls w @ [Describe_pipelines [i]]"
  by (auto simp: state_from_id_def split: prod.splits sum.splits dest: call_calls)

lemma issued_append: "calls w' = calls w @ new \<Longrightarrow> issued w w' = new"
  by (simp add: issued_def)

lemma activate_unroll:
  "activate conn tr p w =
     (case activate_round conn tr p w of Done r \<Rightarrow> Some r | Restart w4 \<Rightarrow> activate conn tr p w4)"
  by (subst activate.simps) (simp add: activate_round_def split: prod.splits sum.splits)

lemmas run_defs =
  create_def definition_from_id_def state_from_id_def call_def fetch_field_value_def
  api_objects_def api_parameters_def api_values_def logging_def py_print_def

lemmas scenario_defs =
  prompt_service_def slow_service_def stubborn_service_def plain_translator_def
  pipeline_named_def world_in_def description_of_def fresh_def empty_definition_def
  hourly_definition_def daily_definition_def verdict_def

text \<open>
  Claim C1. When the three reads return and the definition fetched for the created
  pipeline id equals the desired one, \<^verbatim>\<open>activate\<close> returns \<^verbatim>\<open>True\<close> in the world the
  reads left: the requests it sent are the create, the get-definition and the describe,
  and no put, activate or delete.
\<close>

theorem activate_noop:
  assumes "create conn p w = (Inr pipeline_id, w1)"
    and "definition_from_id conn tr pipeline_id w1 = (Inr (pdefinition p), w2)"
    and "state_from_id conn pipeline_id w2 = (Inr state, w3)"
  shows "activate conn tr p w = Some (Inr (PBool True), w3) \<and>
         calls w3 = calls w @ [Create_pipeline (name p) (unique_id p) (description p),
                        Get_pipeline_definition pipeline_id, Describe_pipelines [pipeline_id]] \<and>
         filter is_put (issued w w3) = [] \<and> filter is_activate (issued w w3) = [] \<and>
         filter is_delete (issued w w3) = []"
proof -
  have r: "activate conn tr p w = Some (Inr (PBool True), w3)"
    by (subst activate.simps) (simp add: assms)
  have c: "calls w3 = calls w @ [Create_pipeline (name p) (unique_id p) (description p),
                        Get_pipeline_definition pipeline_id, Describe_pipelines [pipeline_id]]"
    using create_calls[OF assms(1)] definition_from_id_calls[OF assms(2)] state_from_id_calls[OF assms(3)]
    by simp
  then have i: "issued w w3 = [Create_pipeline (name p) (unique_id p) (description p),
                        Get_pipeline_definition pipeline_id, Describe_pipelines [pipeline_id]]"
    by (rule issued_append)
  from r c i show ?thesis by simp
qed

text \<open>The theorem on a scheduled entity that already has the desired definition.\<close>

theorem activate_noop_witness:
  "activate prompt_service plain_translator (pipeline_named ''hourly'' hourly_definition)
     (world_in (''SCHEDULED'', hourly_definition)) =
     Some (Inr (PBool True),
           \<lparr>remote = (''SCHEDULED'', hourly_definition),
            calls = [Create_pipeline (PStr ''hourly'') (PStr ''unique_id'') PNone,
                     Get_pipeline_definition (PStr ''df-1''), Describe_pipelines [PStr ''df-1'']],
            outputs = []\<rparr>) \<and>
   filter is_put (issued (world_in (''SCHEDULED'', hourly_definition))
           \<lparr>remote = (''SCHEDULED'', hourly_definition),
            calls = [Create_pipeline (PStr ''hourly'') (PStr ''unique_id'') PNone,
                     Get_pipeline_definition (PStr ''df-1''), Describe_pipelines [PStr ''df-1'']],
            outputs = []\<rparr>) = []"
proof -
  let ?p = "pipeline_named ''hourly'' hourly_definition"
  let ?s = "(''SCHEDULED'', hourly_definition)"
  let ?c1 = "[Create_pipeline (PStr ''hourly'') (PStr ''unique_id'') PNone]"
  let ?c2 = "?c1 @ [Get_pipeline_definition (PStr ''df-1'')]"
  let ?c3 = "?c2 @ [Describe_pipelines [PStr ''df-1'']]"
  have h1: "create prompt_service ?p (world_in ?s) =
      (Inr (PStr ''df-1''), \<lparr>remote = ?s, calls = ?c1, outputs = []\<rparr>)"
    by (simp add: run_defs scenario_defs)
  have h2: "definition_from_id prompt_service plain_translator (PStr ''df-1'')
      \<lparr>remote = ?s, calls = ?c1, outputs = []\<rparr> =
      (Inr (pdefinition ?p), \<lparr>remote = ?s, calls = ?c2, outputs = []\<rparr>)"
    by (simp add: run_defs scenario_defs)
  have h3: "state_from_id prompt_service (PStr ''df-1'') \<lparr>remote = ?s, calls = ?c2, outputs = []\<rparr> =
      (Inr (PStr ''SCHEDULED''), \<lparr>remote = ?s, calls = ?c3, outputs = []\<rparr>)"
    by (simp add: run_defs scenario_defs)
  from activate_noop[OF h1 h2 h3] show ?thesis
    by (simp add: pipeline_named_def world_in_def issued_def)
qed

lemma pending_run:
  assumes "create conn p w = (Inr pipeline_id, w1)"
    and "definition_from_id conn tr pipeline_id w1 = (Inr existing_definition, w2)"
    and "state_from_id conn pipeline_id w2 = (Inr (PStr ''PENDING''), w3)"
    and "existing_definition \<noteq> pdefinition p"
    and "api_objects tr p = Inr objs"
    and "api_parameters tr p = Inr params"
    and "api_values tr p = Inr vals"
    and "call conn (Put_pipeline_definition objs pipeline_id params vals)
           (logging DEBUG (PStr ''Putting pipeline definition'') [] w3) = (Inr u, w4)"
  shows "\<exists>res w5. activate conn tr p w = Some (res, w5) \<and>
         calls w5 = calls w @ [Create_pipeline (name p) (unique_id p) (description p),
                        Get_pipeline_definition pipeline_id, Describe_pipelines [pipeline_id],
                        Put_pipeline_definition objs pipeline_id params vals,
                        Activate_pipeline pipeline_id]"
proof -
  obtain res w5 where a: "call conn (Activate_pipeline pipeline_id)
      (logging INFO (PStr ''Activating pipeline with id {}'') [pipeline_id] w4) = (res, w5)"
    by (cases "call conn (Activate_pipeline pipeline_id)
      (logging INFO (PStr ''Activating pipeline with id {}'') [pipeline_id] w4)") blast
  have r: "activate conn tr p w = Some (case res of Inl e \<Rightarrow> Inl e | Inr v \<Rightarrow> Inr PNone, w5)"
    by (subst activate.simps) (simp add: assms a split: sum.splits)
  have "calls w5 = calls w @ [Create_pipeline (name p) (unique_id p) (description p),
                        Get_pipeline_definition pipeline_id, Describe_pipelines [pipeline_id],
                        Put_pipeline_definition objs pipeline_id params vals,
                        Activate_pipeline pipeline_id]"
    using create_calls[OF assms(1)] definition_from_id_calls[OF assms(2)] state_from_id_calls[OF assms(3)]
      call_calls[OF assms(8)] call_calls[OF a]
    by simp
  with r show ?thesis by blast
qed

text \<open>
  Claim C3. When the entity is \<^verbatim>\<open>PENDING\<close>, its definition differs from the desired
  one, the translator produces the three payloads and the put returns, \<^verbatim>\<open>activate\<close>
  ends having sent, after the three reads, exactly one put followed by exactly one
  activate for the same pipeline id, and no delete.
\<close>

theorem activate_pending:
  assumes "create conn p w = (Inr pipeline_id, w1)"
    and "definition_from_id conn tr pipeline_id w1 = (Inr existing_definition, w2)"
    and "state_from_id conn pipeline_id w2 = (Inr (PStr ''PENDING''), w3)"
    and "existing_definition \<noteq> pdefinition p"
    and "api_objects tr p = Inr objs"
    and "api_parameters tr p = Inr params"
    and "api_values tr p = Inr vals"
    and "call conn (Put_pipeline_definition objs pipeline_id params vals)
           (logging DEBUG (PStr ''Putting pipeline definition'') [] w3) = (Inr u, w4)"
  shows "\<exists>res w5. activate conn tr p w = Some (res, w5) \<and>
         calls w5 = calls w @ [Create_pipeline (name p) (unique_id p) (description p),
                        Get_pipeline_definition pipeline_id, Describe_pipelines [pipeline_id],
                        Put_pipeline_definition objs pipeline_id params vals,
                        Activate_pipeline pipeline_id]"
  using assms by (rule pending_run)

text \<open>The theorem on a fresh entity of the simulated service.\<close>

theorem activate_pending_witness:
  "\<exists>res w5.
     activate prompt_service plain_translator (pipeline_named ''hourly'' hourly_definition)
       (world_in (''PENDING'', empty_definition)) = Some (res, w5) \<and>
     calls w5 = calls (world_in (''PENDING'', empty_definition)) @
       [Create_pipeline (PStr ''hourly'') (PStr ''unique_id'') PNone,
        Get_pipeline_definition (PStr ''df-1''), Describe_pipelines [PStr ''df-1''],
        Put_pipeline_definition hourly_definition (PStr ''df-1'') (PList [])
          (PDict [(''values'', pvalues (pipeline_named ''hourly'' hourly_definition))]),
        Activate_pipeline (PStr ''df-1'')]"
proof -
  let ?c = prompt_service and ?t = plain_translator
  let ?p = "pipeline_named ''hourly'' hourly_definition"
  let ?w = "world_in (''PENDING'', empty_definition)"
  let ?i = "PStr ''df-1''"
  define w1 where "w1 = snd (create ?c ?p ?w)"
  define w2 where "w2 = snd (definition_from_id ?c ?t ?i w1)"
  define w3 where "w3 = snd (state_from_id ?c ?i w2)"
  define vals where "vals = PDict [(''values'', pvalues ?p)]"
  define w4 where "w4 = snd (call ?c (Put_pipeline_definition hourly_definition ?i (PList []) vals)
           (logging DEBUG (PStr ''Putting pipeline definition'') [] w3))"
  have h1: "create ?c ?p ?w = (Inr ?i, w1)"
    by (simp add: w1_def run_defs scenario_defs)
  have h2: "definition_from_id ?c ?t ?i w1 = (Inr empty_definition, w2)"
    by (simp add: w2_def w1_def run_defs scenario_defs)
  have h3: "state_from_id ?c ?i w2 = (Inr (PStr ''PENDING''), w3)"
    by (simp add: w3_def w2_def w1_def run_defs scenario_defs)
  have h4: "empty_definition \<noteq> pdefinition ?p"
    by (simp add: scenario_defs)
  have h5: "api_objects ?t ?p = Inr hourly_definition"
    by (simp add: run_defs scenario_defs)
  have h6: "api_parameters ?t ?p = Inr (PList [])"
    by (simp add: run_defs scenario_defs)
  have h7: "api_values ?t ?p = Inr vals"
    by (simp add: vals_def run_defs scenario_defs)
  have h8: "call ?c (Put_pipeline_definition hourly_definition ?i (PList []) vals)
           (logging DEBUG (PStr ''Putting pipeline definition'') [] w3) = (Inr PNone, w4)"
    by (simp add: w4_def w3_def w2_def w1_def run_defs scenario_defs)
  from activate_pending[OF h1 h2 h3 h4 h5 h6 h7 h8] show ?thesis
    by (simp add: vals_def pipeline_named_def)
qed

lemma stale_restart:
  assumes "create conn p w = (Inr pipeline_id, w1)"
    and "definition_from_id conn tr pipeline_id w1 = (Inr existing_definition, w2)"
    and "state_from_id conn pipeline_id w2 = (Inr state, w3)"
    and "existing_definition \<noteq> pdefinition p"
    and "state \<noteq> PStr ''PENDING''"
    and "call conn (Delete_pipeline pipeline_id)
           (logging INFO (PStr ''Deleting pipeline with id {}'') [pipeline_id]
              (py_print [PStr ''State is: '', state] w3)) = (Inr u, w4)"
  shows "activate conn tr p w = activate conn tr p w4"
    and "calls w4 = calls w @ [Create_pipeline (name p) (unique_id p) (description p),
                        Get_pipeline_definition pipeline_id, Describe_pipelines [pipeline_id],
                        Delete_pipeline pipeline_id]"
proof -
  show "activate conn tr p w = activate conn tr p w4"
    by (subst activate.simps) (simp add: assms)
  show "calls w4 = calls w @ [Create_pipeline (name p) (unique_id p) (description p),
                        Get_pipeline_definition pipeline_id, Describe_pipelines [pipeline_id],
                        Delete_pipeline pipeline_id]"
    using create_calls[OF assms(1)] definition_from_id_calls[OF assms(2)] state_from_id_calls[OF assms(3)]
      call_calls[OF assms(6)]
    by simp
qed

text \<open>
  Claim C4, as the code has it. When the entity is not \<^verbatim>\<open>PENDING\<close> and its definition
  differs from the desired one, \<^verbatim>\<open>activate\<close> sends one delete and starts again from the
  create. If the entity it then finds is \<^verbatim>\<open>PENDING\<close> with a definition that still
  differs from the desired one (and the translator and the put succeed), the run ends
  in the put-and-activate branch, and the requests of the whole call are: create,
  get-definition, describe, delete, create, get-definition, describe, put, activate.
\<close>

theorem activate_stale:
  assumes "create conn p w = (Inr pipeline_id, w1)"
    and "definition_from_id conn tr pipeline_id w1 = (Inr existing_definition, w2)"
    and "state_from_id conn pipeline_id w2 = (Inr state, w3)"
    and "existing_definition \<noteq> pdefinition p"
    and "state \<noteq> PStr ''PENDING''"
    and "call conn (Delete_pipeline pipeline_id)
           (logging INFO (PStr ''Deleting pipeline with id {}'') [pipeline_id]
              (py_print [PStr ''State is: '', state] w3)) = (Inr u, w4)"
    and "create conn p w4 = (Inr pipeline_id', w5)"
    and "definition_from_id conn tr pipeline_id' w5 = (Inr existing_definition', w6)"
    and "state_from_id conn pipeline_id' w6 = (Inr (PStr ''PENDING''), w7)"
    and "existing_definition' \<noteq> pdefinition p"
    and "api_objects tr p = Inr objs"
    and "api_parameters tr p = Inr params"
    and "api_values tr p = Inr vals"
    and "call conn (Put_pipeline_definition objs pipeline_id' params vals)
           (logging DEBUG (PStr ''Putting pipeline definition'') [] w7) = (Inr u', w8)"
  shows "\<exists>res w9. activate conn tr p w = Some (res, w9) \<and>
         calls w9 = calls w @ [Create_pipeline (name p) (unique_id p) (description p),
                        Get_pipeline_definition pipeline_id, Describe_pipelines [pipeline_id],
                        Delete_pipeline pipeline_id,
                        Create_pipeline (name p) (unique_id p) (description p),
                        Get_pipeline_definition pipeline_id', Describe_pipelines [pipeline_id'],
                        Put_pipeline_definition objs pipeline_id' params vals,
                        Activate_pipeline pipeline_id']"
proof -
  note first = stale_restart[OF assms(1-6)]
  from pending_run[OF assms(7-14)] obtain res w9
    where r: "activate conn tr p w4 = Some (res, w9)"
      and c: "calls w9 = calls w4 @ [Create_pipeline (name p) (unique_id p) (description p),
                        Get_pipeline_definition pipeline_id', Describe_pipelines [pipeline_id'],
                        Put_pipeline_definition objs pipeline_id' params vals,
                        Activate_pipeline pipeline_id']"
    by blast
  from first(1) r have "activate conn tr p w = Some (res, w9)" by simp
  moreover from first(2) c have "calls w9 = calls w @ [Create_pipeline (name p) (unique_id p) (description p),
                        Get_pipeline_definition pipeline_id, Describe_pipelines [pipeline_id],
                        Delete_pipeline pipeline_id,
                        Create_pipeline (name p) (unique_id p) (description p),
                        Get_pipeline_definition pipeline_id', Describe_pipelines [pipeline_id'],
                        Put_pipeline_definition objs pipeline_id' params vals,
                        Activate_pipeline pipeline_id']" by simp
  ultimately show ?thesis by blast
qed

text \<open>The theorem on a scheduled entity with another definition; the service hands out
  a fresh entity after the delete.\<close>

theorem activate_stale_witness:
  "\<exists>res w9.
     activate prompt_service plain_translator (pipeline_named ''hourly'' hourly_definition)
       (world_in (''SCHEDULED'', daily_definition)) = Some (res, w9) \<and>
     calls w9 = calls (world_in (''SCHEDULED'', daily_definition)) @
       [Create_pipeline (PStr ''hourly'') (PStr ''unique_id'') PNone,
        Get_pipeline_definition (PStr ''df-1''), Describe_pipelines [PStr ''df-1''],
        Delete_pipeline (PStr ''df-1''),
        Create_pipeline (PStr ''hourly'') (PStr ''unique_id'') PNone,
        Get_pipeline_definition (PStr ''df-1''), Describe_pipelines [PStr ''df-1''],
        Put_pipeline_definition hourly_definition (PStr ''df-1'') (PList [])
          (PDict [(''values'', pvalues (pipeline_named ''hourly'' hourly_definition))]),
        Activate_pipeline (PStr ''df-1'')]"
proof -
  let ?c = prompt_service and ?t = plain_translator
  let ?p = "pipeline_named ''hourly'' hourly_definition"
  let ?w = "world_in (''SCHEDULED'', daily_definition)"
  let ?i = "PStr ''df-1''"
  define w1 where "w1 = snd (create ?c ?p ?w)"
  define w2 where "w2 = snd (definition_from_id ?c ?t ?i w1)"
  define w3 where "w3 = snd (state_from_id ?c ?i w2)"
  define w4 where "w4 = snd (call ?c (Delete_pipeline ?i)
           (logging INFO (PStr ''Deleting pipeline with id {}'') [?i]
              (py_print [PStr ''State is: '', PStr ''SCHEDULED''] w3)))"
  define w5 where "w5 = snd (create ?c ?p w4)"
  define w6 where "w6 = snd (definition_from_id ?c ?t ?i w5)"
  define w7 where "w7 = snd (state_from_id ?c ?i w6)"
  define vals where "vals = PDict [(''values'', pvalues ?p)]"
  define w8 where "w8 = snd (call ?c (Put_pipeline_definition hourly_definition ?i (PList []) vals)
           (logging DEBUG (PStr ''Putting pipeline definition'') [] w7))"
  note ws = w1_def w2_def w3_def w4_def w5_def w6_def w7_def w8_def
  have h1: "create ?c ?p ?w = (Inr ?i, w1)"
    by (simp add: ws run_defs scenario_defs)
  have h2: "definition_from_id ?c ?t ?i w1 = (Inr daily_definition, w2)"
    by (simp add: ws run_defs scenario_defs)
  have h3: "state_from_id ?c ?i w2 = (Inr (PStr ''SCHEDULED''), w3)"
    by (simp add: ws run_defs scenario_defs)
  have h4: "daily_definition \<noteq> pdefinition ?p"
    by (simp add: scenario_defs)
  have h5: "PStr ''SCHEDULED'' \<noteq> PStr ''PENDING''" by simp
  have h6: "call ?c (Delete_pipeline ?i)
           (logging INFO (PStr ''Deleting pipeline with id {}'') [?i]
              (py_print [PStr ''State is: '', PStr ''SCHEDULED''] w3)) = (Inr PNone, w4)"
    by (simp add: ws run_defs scenario_defs)
  have h7: "create ?c ?p w4 = (Inr ?i, w5)"
    by (simp add: ws run_defs scenario_defs)
  have h8: "definition_from_id ?c ?t ?i w5 = (Inr empty_definition, w6)"
    by (simp add: ws run_defs scenario_defs)
  have h9: "state_from_id ?c ?i w6 = (Inr (PStr ''PENDING''), w7)"
    by (simp add: ws run_defs scenario_defs)
  have h10: "empty_definition \<noteq> pdefinition ?p"
    by (simp add: scenario_defs)
  have h11: "api_objects ?t ?p = Inr hourly_definition"
    by (simp add: run_defs scenario_defs)
  have h12: "api_parameters ?t ?p = Inr (PList [])"
    by (simp add: run_defs scenario_defs)
  have h13: "api_values ?t ?p = Inr vals"
    by (simp add: vals_def run_defs scenario_defs)
  have h14: "call ?c (Put_pipeline_definition hourly_definition ?i (PList []) vals)
           (logging DEBUG (PStr ''Putting pipeline definition'') [] w7) = (Inr PNone, w8)"
    by (simp add: ws run_defs scenario_defs)
  from activate_stale[OF h1 h2 h3 h4 h5 h6 h7 h8 h9 h10 h11 h12 h13 h14] show ?thesis
    by (simp add: vals_def pipeline_named_def)
qed

text \<open>
  The claim C4 as stated fails: where the run lands after the delete depends on the
  entity that the service hands out. With the empty definition as the desired one, the
  fresh entity already equals it, and the restarted run returns \<^verbatim>\<open>True\<close> without a put
  or an activate.
\<close>

theorem activate_restart_counterexample:
  "requests_of (activate prompt_service plain_translator (pipeline_named ''hourly'' empty_definition)
      (world_in (''SCHEDULED'', hourly_definition))) =
     Some [Create_pipeline (PStr ''hourly'') (PStr ''unique_id'') PNone,
           Get_pipeline_definition (PStr ''df-1''), Describe_pipelines [PStr ''df-1''],
           Delete_pipeline (PStr ''df-1''),
           Create_pipeline (PStr ''hourly'') (PStr ''unique_id'') PNone,
           Get_pipeline_definition (PStr ''df-1''), Describe_pipelines [PStr ''df-1'']] \<and>
   result_of (activate prompt_service plain_translator (pipeline_named ''hourly'' empty_definition)
      (world_in (''SCHEDULED'', hourly_definition))) = Some (Inr (PBool True))"
  by (subst activate.simps, simp add: run_defs scenario_defs,
      subst activate.simps, simp add: run_defs scenario_defs,
      subst activate.simps, simp add: run_defs scenario_defs,
      subst activate.simps, simp add: run_defs scenario_defs requests_of_def result_of_def)

lemma round_done:
  assumes "activate_round conn tr p w = Done (res, w')"
  shows "\<exists>new. calls w' = calls w @ new \<and> length (filter is_delete new) \<le> 1 \<and>
           length (filter is_put new) \<le> 1 \<and> length (filter is_activate new) \<le> 1 \<and>
           (filter is_delete new = [] \<or> (filter is_put new = [] \<and> filter is_activate new = []))"
  using assms unfolding activate_round_def
  by (auto split: prod.splits sum.splits if_splits
      dest!: create_calls definition_from_id_calls state_from_id_calls call_calls)

lemma round_restart:
  assumes "activate_round conn tr p w = Restart w4"
  shows "\<exists>new. calls w4 = calls w @ new \<and> length (filter is_delete new) = 1 \<and>
           filter is_put new = [] \<and> filter is_activate new = []"
  using assms unfolding activate_round_def
  by (auto split: prod.splits sum.splits if_splits
      dest!: create_calls definition_from_id_calls state_from_id_calls call_calls)

text \<open>
  Claim C2, as the code has it. The recursion of \<^verbatim>\<open>activate\<close> has no bound of its own.
  If the run that follows the first delete sends no further delete (the entity it finds
  is \<^verbatim>\<open>PENDING\<close> or has the desired definition, or one of its calls fails), then
  \<^verbatim>\<open>activate\<close> ends, having sent at most one delete, at most one put and at most one
  activate.
\<close>

theorem activate_bounded:
  assumes "settles_after_restart conn tr p w"
  shows "\<exists>res w'. activate conn tr p w = Some (res, w') \<and>
           length (filter is_delete (issued w w')) \<le> 1 \<and>
           length (filter is_put (issued w w')) \<le> 1 \<and>
           length (filter is_activate (issued w w')) \<le> 1"
proof (cases "activate_round conn tr p w")
  case (Done r)
  obtain res w' where r: "r = (res, w')" by (cases r)
  from Done r have a: "activate conn tr p w = Some (res, w')"
    by (subst activate_unroll) simp
  from round_done[OF Done[unfolded r]] obtain new where
    "calls w' = calls w @ new" "length (filter is_delete new) \<le> 1"
    "length (filter is_put new) \<le> 1" "length (filter is_activate new) \<le> 1" by blast
  with a show ?thesis by (auto simp: issued_append)
next
  case (Restart w4)
  from round_restart[OF Restart] obtain new1 where n1: "calls w4 = calls w @ new1"
    "length (filter is_delete new1) = 1" "filter is_put new1 = []" "filter is_activate new1 = []"
    by blast
  show ?thesis
  proof (cases "activate_round conn tr p w4")
    case (Done r)
    obtain res w' where r: "r = (res, w')" by (cases r)
    from assms Restart Done r have nodel: "filter is_delete (issued w4 w') = []"
      by (simp add: settles_after_restart_def)
    from \<open>activate_round conn tr p w = Restart w4\<close> Done r
    have a: "activate conn tr p w = Some (res, w')"
      by (subst activate_unroll, simp, subst activate_unroll, simp)
    from round_done[OF Done[unfolded r]] obtain new2 where n2:
      "calls w' = calls w4 @ new2"
      "length (filter is_put new2) \<le> 1" "length (filter is_activate new2) \<le> 1" by blast
    from n2(1) have i2: "issued w4 w' = new2" by (rule issued_append)
    from n1(1) n2(1) have "calls w' = calls w @ (new1 @ new2)" by simp
    then have "issued w w' = new1 @ new2" by (rule issued_append)
    with n1 n2 nodel i2 a show ?thesis by simp
  next
    case (Restart w5)
    with assms \<open>activate_round conn tr p w = Restart w4\<close> show ?thesis
      by (simp add: settles_after_restart_def)
  qed
qed

text \<open>The theorem on a scheduled entity with another definition.\<close>

theorem activate_bounded_witness:
  "\<exists>res w'.
     activate prompt_service plain_translator (pipeline_named ''hourly'' hourly_definition)
       (world_in (''SCHEDULED'', daily_definition)) = Some (res, w') \<and>
     length (filter is_delete (issued (world_in (''SCHEDULED'', daily_definition)) w')) \<le> 1 \<and>
     length (filter is_put (issued (world_in (''SCHEDULED'', daily_definition)) w')) \<le> 1 \<and>
     length (filter is_activate (issued (world_in (''SCHEDULED'', daily_definition)) w')) \<le> 1"
proof -
  have h: "settles_after_restart prompt_service plain_translator
      (pipeline_named ''hourly'' hourly_definition) (world_in (''SCHEDULED'', daily_definition))"
    by (simp add: settles_after_restart_def activate_round_def issued_def run_defs scenario_defs)
  show ?thesis by (rule activate_bounded[OF h])
qed

lemma slow_run:
  "activate slow_service plain_translator (pipeline_named ''daily'' daily_definition)
      (world_in (''SCHEDULED'', hourly_definition)) =
   Some (Inr PNone,
     \<lparr>remote = (''SCHEDULED'', daily_definition),
      calls = [Create_pipeline (PStr ''daily'') (PStr ''unique_id'') PNone,
           Get_pipeline_definition (PStr ''df-1''), Describe_pipelines [PStr ''df-1''],
           Delete_pipeline (PStr ''df-1''),
           Create_pipeline (PStr ''daily'') (PStr ''unique_id'') PNone,
           Get_pipeline_definition (PStr ''df-1''), Describe_pipelines [PStr ''df-1''],
           Delete_pipeline (PStr ''df-1''),
           Create_pipeline (PStr ''daily'') (PStr ''unique_id'') PNone,
           Get_pipeline_definition (PStr ''df-1''), Describe_pipelines [PStr ''df-1''],
           Put_pipeline_definition daily_definition (PStr ''df-1'') (PList [])
             (PDict [(''values'', PDict [(''myStartDateTime'', PStr ''2014-01-03T00:00:00''),
                                         (''mySchedulePeriod'', PStr ''1 days'')])]),
           Activate_pipeline (PStr ''df-1'')],
      outputs = [Print [PStr ''State is: '', PStr ''SCHEDULED''],
                 Log INFO (PStr ''Deleting pipeline with id {}'') [PStr ''df-1''],
                 Print [PStr ''State is: '', PStr ''DELETING''],
                 Log INFO (PStr ''Deleting pipeline with id {}'') [PStr ''df-1''],
                 Log DEBUG (PStr ''Putting pipeline definition'') [],
                 Log INFO (PStr ''Activating pipeline with id {}'') [PStr ''df-1'']]\<rparr>)"
  by (subst activate.simps, simp add: run_defs scenario_defs,
      subst activate.simps, simp add: run_defs scenario_defs,
      subst activate.simps, simp add: run_defs scenario_defs)

text \<open>
  The claim C2 as stated fails for a service whose entity is still not \<^verbatim>\<open>PENDING\<close>
  after the first delete: the run sends a second delete before it puts and activates.
\<close>

theorem activate_bounded_counterexample:
  "requests_of (activate slow_service plain_translator (pipeline_named ''daily'' daily_definition)
      (world_in (''SCHEDULED'', hourly_definition))) =
     Some [Create_pipeline (PStr ''daily'') (PStr ''unique_id'') PNone,
           Get_pipeline_definition (PStr ''df-1''), Describe_pipelines [PStr ''df-1''],
           Delete_pipeline (PStr ''df-1''),
           Create_pipeline (PStr ''daily'') (PStr ''unique_id'') PNone,
           Get_pipeline_definition (PStr ''df-1''), Describe_pipelines [PStr ''df-1''],
           Delete_pipeline (PStr ''df-1''),
           Create_pipeline (PStr ''daily'') (PStr ''unique_id'') PNone,
           Get_pipeline_definition (PStr ''df-1''), Describe_pipelines [PStr ''df-1''],
           Put_pipeline_definition daily_definition (PStr ''df-1'') (PList [])
             (PDict [(''values'', PDict [(''myStartDateTime'', PStr ''2014-01-03T00:00:00''),
                                         (''mySchedulePeriod'', PStr ''1 days'')])]),
           Activate_pipeline (PStr ''df-1'')]"
  by (simp add: slow_run requests_of_def)

text \<open>
  Induction over the passes of a run that ends, and a service on which no run ends: a
  delete that changes nothing is followed by another pass, without end. (CPython stops
  such a run with a \<^verbatim>\<open>RuntimeError\<close> at its recursion limit, after as many deletes.)
\<close>

lemma activate_rounds_induct:
  assumes run: "activate conn tr p w = Some y"
    and finish: "\<And>w r. activate_round conn tr p w = Done r \<Longrightarrow> P w r"
    and restart: "\<And>w w4 y. activate_round conn tr p w = Restart w4 \<Longrightarrow> P w4 y \<Longrightarrow> P w y"
  shows "P w y"
proof -
  have "conn = conn \<and> tr = tr \<and> p = p \<longrightarrow> P w y"
  proof (rule activate.raw_induct[where P = "\<lambda>c t q w y. c = conn \<and> t = tr \<and> q = p \<longrightarrow> P w y", OF _ run])
    fix f :: "'a connection \<Rightarrow> 'b translator \<Rightarrow> 'b pipeline \<Rightarrow> 'a world \<Rightarrow> ((error + pyval) \<times> 'a world) option"
      and c t q w y
    assume IH: "\<And>c t q w y. f c t q w = Some y \<Longrightarrow> c = conn \<and> t = tr \<and> q = p \<longrightarrow> P w y"
    assume body: "(case create c q w of
        (Inl e, w1) \<Rightarrow> Some (Inl e, w1)
      | (Inr pipeline_id, w1) \<Rightarrow>
     (case definition_from_id c t pipeline_id w1 of
        (Inl e, w2) \<Rightarrow> Some (Inl e, w2)
      | (Inr existing_definition, w2) \<Rightarrow>
     (case state_from_id c pipeline_id w2 of
        (Inl e, w3) \<Rightarrow> Some (Inl e, w3)
      | (Inr state, w3) \<Rightarrow>
          if existing_definition = pdefinition q then Some (Inr (PBool True), w3)
          else if state \<noteq> PStr ''PENDING'' then
            (case call c (Delete_pipeline pipeline_id)
                    (logging INFO (PStr ''Deleting pipeline with id {}'') [pipeline_id]
                       (py_print [PStr ''State is: '', state] w3)) of
               (Inl e, w4) \<Rightarrow> Some (Inl e, w4)
             | (Inr u, w4) \<Rightarrow> f c t q w4)
          else
            (case api_objects t q of
               Inl e \<Rightarrow> Some (Inl e, logging DEBUG (PStr ''Putting pipeline definition'') [] w3)
             | Inr objs \<Rightarrow>
            (case api_parameters t q of
               Inl e \<Rightarrow> Some (Inl e, logging DEBUG (PStr ''Putting pipeline definition'') [] w3)
             | Inr params \<Rightarrow>
            (case api_values t q of
               Inl e \<Rightarrow> Some (Inl e, logging DEBUG (PStr ''Putting pipeline definition'') [] w3)
             | Inr vals \<Rightarrow>
            (case call c (Put_pipeline_definition objs pipeline_id params vals)
                    (logging DEBUG (PStr ''Putting pipeline definition'') [] w3) of
               (Inl e, w4) \<Rightarrow> Some (Inl e, w4)
             | (Inr u, w4) \<Rightarrow>
            (case call c (Activate_pipeline pipeline_id)
                    (logging INFO (PStr ''Activating pipeline with id {}'') [pipeline_id] w4) of
               (Inl e, w5) \<Rightarrow> Some (Inl e, w5)
             | (Inr u', w5) \<Rightarrow> Some (Inr PNone, w5))))))))) = Some y"
      (is "?body = _")
    have "?body = (case activate_round c t q w of Done r \<Rightarrow> Some r | Restart w4 \<Rightarrow> f c t q w4)"
      by (simp add: activate_round_def split: prod.splits sum.splits)
    with body have unroll:
      "(case activate_round c t q w of Done r \<Rightarrow> Some r | Restart w4 \<Rightarrow> f c t q w4) = Some y"
      by simp
    show "c = conn \<and> t = tr \<and> q = p \<longrightarrow> P w y"
    proof
      assume a: "c = conn \<and> t = tr \<and> q = p"
      show "P w y"
      proof (cases "activate_round conn tr p w")
        case (Done r)
        with unroll a have "r = y" by simp
        with Done show ?thesis by (simp add: finish)
      next
        case (Restart w4)
        with unroll a have "f conn tr p w4 = Some y" by simp
        from IH[OF this] have "P w4 y" by simp
        with Restart show ?thesis by (rule restart)
      qed
    qed
  qed
  then show ?thesis by simp
qed

lemma stubborn_round:
  assumes "remote w = (''SCHEDULED'', hourly_definition)"
  shows "\<exists>w4. activate_round stubborn_service plain_translator (pipeline_named ''daily'' daily_definition) w = Restart w4
            \<and> remote w4 = (''SCHEDULED'', hourly_definition)"
  using assms by (simp add: activate_round_def run_defs scenario_defs)

lemma activate_stubborn_diverges:
  "activate stubborn_service plain_translator (pipeline_named ''daily'' daily_definition)
     (world_in (''SCHEDULED'', hourly_definition)) = None"
proof (cases "activate stubborn_service plain_translator (pipeline_named ''daily'' daily_definition)
     (world_in (''SCHEDULED'', hourly_definition))")
  case (Some y)
  have "remote (world_in (''SCHEDULED'', hourly_definition)) \<noteq> (''SCHEDULED'', hourly_definition)"
  proof (rule activate_rounds_induct[OF Some, where P = "\<lambda>w y. remote w \<noteq> (''SCHEDULED'', hourly_definition)"])
    fix w :: "sim world" and r
    assume "activate_round stubborn_service plain_translator (pipeline_named ''daily'' daily_definition) w = Done r"
    then show "remote w \<noteq> (''SCHEDULED'', hourly_definition)" using stubborn_round[of w] by auto
  next
    fix w w4 :: "sim world"
    assume "activate_round stubborn_service plain_translator (pipeline_named ''daily'' daily_definition) w = Restart w4"
      and "remote w4 \<noteq> (''SCHEDULED'', hourly_definition)"
    then show "remote w \<noteq> (''SCHEDULED'', hourly_definition)" using stubborn_round[of w] by auto
  qed
  then show ?thesis by (simp add: world_in_def)
qed simp

section \<open>The deployment key\<close>

lemma Pipeline_init_unique_id:
  assumes "Pipeline_init e template dirpath decoded = Some (Inr p)"
  shows "unique_id p = PStr ''unique_id''"
  using assms unfolding Pipeline_init_def
  by (auto split: sum.splits option.splits)

text \<open>
  Claim C8, as the code has it. Every pipeline that \<^verbatim>\<open>Pipeline.__init__\<close> builds has
  the same deployment key, the literal \<^verbatim>\<open>'unique_id'\<close>, whatever its name, template and
  values; \<^verbatim>\<open>create\<close> sends this key with the name and the description of the pipeline,
  which alone tell two pipelines apart.
\<close>

theorem create_key_constant:
  assumes "Pipeline_init e template dirpath decoded = Some (Inr p)"
    and "create conn p w = (r, w1)"
  shows "unique_id p = PStr ''unique_id'' \<and>
         calls w1 = calls w @ [Create_pipeline (name p) (PStr ''unique_id'') (description p)]"
  using Pipeline_init_unique_id[OF assms(1)] create_calls[OF assms(2)] by simp

lemma init_hourly:
  "Pipeline_init (calendar_env january_2014 (735234 * 86400000000)) hourly_definition
     ''pipelines/hourly'' values_json = Some (Inr (pipeline_named ''hourly'' hourly_definition))"
  unfolding Pipeline_init_def adjusted_to_future_def
  by (simp add: values_json_def basename_def calendar_env_def january_2014_def strptime_def strftime_def parse_one_day
        pipeline_named_def del: parse_period.simps, subst future_loop.simps,
      simp add: calendar_env_def january_2014_def strptime_def strftime_def)

lemma init_daily:
  "Pipeline_init (calendar_env january_2014 (735234 * 86400000000)) daily_definition
     ''pipelines/daily'' values_json = Some (Inr (pipeline_named ''daily'' daily_definition))"
  unfolding Pipeline_init_def adjusted_to_future_def
  by (simp add: values_json_def basename_def calendar_env_def january_2014_def strptime_def strftime_def parse_one_day
        pipeline_named_def del: parse_period.simps, subst future_loop.simps,
      simp add: calendar_env_def january_2014_def strptime_def strftime_def)

text \<open>The theorem for the pipeline built from the directory \<^verbatim>\<open>pipelines/hourly\<close>.\<close>

theorem create_key_constant_witness:
  "unique_id (pipeline_named ''hourly'' hourly_definition) = PStr ''unique_id'' \<and>
   calls (snd (create prompt_service (pipeline_named ''hourly'' hourly_definition) (world_in fresh))) =
     calls (world_in fresh) @ [Create_pipeline (PStr ''hourly'') (PStr ''unique_id'') PNone]"
proof -
  have h: "create prompt_service (pipeline_named ''hourly'' hourly_definition) (world_in fresh) =
     (fst (create prompt_service (pipeline_named ''hourly'' hourly_definition) (world_in fresh)),
      snd (create prompt_service (pipeline_named ''hourly'' hourly_definition) (world_in fresh)))"
    by simp
  from create_key_constant[OF init_hourly h] show ?thesis by (simp add: pipeline_named_def)
qed

text \<open>
  The claim C8 as stated fails: two pipelines with different names and different
  templates are created under the same key.
\<close>

theorem create_key_counterexample:
  "Pipeline_init (calendar_env january_2014 (735234 * 86400000000)) hourly_definition
     ''pipelines/hourly'' values_json = Some (Inr (pipeline_named ''hourly'' hourly_definition)) \<and>
   Pipeline_init (calendar_env january_2014 (735234 * 86400000000)) daily_definition
     ''pipelines/daily'' values_json = Some (Inr (pipeline_named ''daily'' daily_definition)) \<and>
   name (pipeline_named ''hourly'' hourly_definition) \<noteq> name (pipeline_named ''daily'' daily_definition) \<and>
   pdefinition (pipeline_named ''hourly'' hourly_definition) \<noteq> pdefinition (pipeline_named ''daily'' daily_definition) \<and>
   calls (snd (create prompt_service (pipeline_named ''hourly'' hourly_definition) (world_in fresh))) =
     [Create_pipeline (PStr ''hourly'') (PStr ''unique_id'') PNone] \<and>
   calls (snd (create prompt_service (pipeline_named ''daily'' daily_definition) (world_in fresh))) =
     [Create_pipeline (PStr ''daily'') (PStr ''unique_id'') PNone]"
  by (intro conjI, rule init_hourly, rule init_daily, simp_all add: run_defs scenario_defs)

section \<open>Batch activation\<close>

lemma calls_log_messages [simp]: "calls (log_messages lv ms w) = calls w"
  by (induction ms arbitrary: w) simp_all

lemma log_containers_calls:
  "log_containers lv heading key cs w = (r, w1) \<Longrightarrow> calls w1 = calls w"
proof (induction cs arbitrary: w)
  case Nil
  then show ?case by simp
next
  case (Cons c cs)
  then show ?case
    by (auto split: sum.splits)
qed

lemma log_validation_messages_calls:
  "log_validation_messages response w = (r, w1) \<Longrightarrow> calls w1 = calls w"
  unfolding log_validation_messages_def
  by (auto split: sum.splits prod.splits dest!: log_containers_calls)

lemma stub_is_validation: "validation_request stub_request"
  by (simp add: stub_request_def)

lemma is_valid_requests:
  assumes "is_valid conn tr p w = (r, w1)"
  shows "\<exists>new. calls w1 = calls w @ new \<and> list_all validation_request new"
  using assms stub_is_validation unfolding is_valid_def
  by (auto split: sum.splits prod.splits dest!: call_calls log_validation_messages_calls)

lemma is_valid_each_requests:
  "is_valid_each conn tr ps w = (r, w1) \<Longrightarrow>
   \<exists>new. calls w1 = calls w @ new \<and> list_all validation_request new"
proof (induction ps arbitrary: w r w1)
  case Nil
  then show ?case by simp
next
  case (Cons p ps)
  obtain r0 w0 where v: "is_valid conn tr p w = (r0, w0)" by (cases "is_valid conn tr p w")
  from is_valid_requests[OF v] obtain new0 where n0: "calls w0 = calls w @ new0"
    "list_all validation_request new0" by blast
  show ?case
  proof (cases r0)
    case (Inl e)
    with Cons.prems v have "w1 = w0" by simp
    with n0 show ?thesis by blast
  next
    case (Inr b)
    obtain r2 w2 where e: "is_valid_each conn tr ps w0 = (r2, w2)"
      by (cases "is_valid_each conn tr ps w0")
    from Cons.IH[OF e] obtain new2 where n2: "calls w2 = calls w0 @ new2"
      "list_all validation_request new2" by blast
    from Cons.prems v Inr e have "w1 = w2" by (auto split: sum.splits)
    with n0 n2 have "calls w1 = calls w @ (new0 @ new2) \<and> list_all validation_request (new0 @ new2)"
      by simp
    then show ?thesis by blast
  qed
qed

lemma are_pipelines_valid_requests:
  assumes "are_pipelines_valid conn tr ps w = (r, w1)"
  shows "\<exists>new. calls w1 = calls w @ new \<and> list_all validation_request new"
proof -
  obtain r0 w0 where e: "is_valid_each conn tr ps w = (r0, w0)"
    by (cases "is_valid_each conn tr ps w")
  with assms have "w1 = w0" by (auto simp: are_pipelines_valid_def split: sum.splits)
  with is_valid_each_requests[OF e] show ?thesis by simp
qed

lemma created_append: "created (xs @ ys) = created xs @ created ys"
  by (induction xs rule: created.induct) simp_all

lemma round_done_created:
  assumes "activate_round conn tr p w = Done (res, w')"
  shows "\<exists>new. calls w' = calls w @ new \<and> created new = [name p]"
  using assms unfolding activate_round_def
  by (auto split: prod.splits sum.splits if_splits
      dest!: create_calls definition_from_id_calls state_from_id_calls call_calls)

lemma round_restart_created:
  assumes "activate_round conn tr p w = Restart w4"
  shows "\<exists>new. calls w4 = calls w @ new \<and> created new = [name p]"
  using assms unfolding activate_round_def
  by (auto split: prod.splits sum.splits if_splits
      dest!: create_calls definition_from_id_calls state_from_id_calls call_calls)

lemma activate_created:
  assumes "activate conn tr p w = Some y"
  shows "\<exists>new k. calls (snd y) = calls w @ new \<and> 0 < k \<and> created new = replicate k (name p)"
proof (rule activate_rounds_induct[OF assms,
      where P = "\<lambda>w y. \<exists>new k. calls (snd y) = calls w @ new \<and> 0 < k \<and> created new = replicate k (name p)"])
  fix w :: "'a world" and r
  assume d: "activate_round conn tr p w = Done r"
  obtain res w' where r: "r = (res, w')" by (cases r)
  from round_done_created[OF d[unfolded r]] obtain new where
    "calls w' = calls w @ new" "created new = [name p]" by blast
  then have "calls (snd r) = calls w @ new \<and> (0::nat) < 1 \<and> created new = replicate 1 (name p)"
    using r by simp
  then show "\<exists>new k. calls (snd r) = calls w @ new \<and> 0 < k \<and> created new = replicate k (name p)"
    by blast
next
  fix w w4 :: "'a world" and y :: "(error + pyval) \<times> 'a world"
  assume d: "activate_round conn tr p w = Restart w4"
    and "\<exists>new k. calls (snd y) = calls w4 @ new \<and> 0 < k \<and> created new = replicate k (name p)"
  then obtain new2 k where n2: "calls (snd y) = calls w4 @ new2" "created new2 = replicate k (name p)"
    by blast
  from round_restart_created[OF d] obtain new1 where n1: "calls w4 = calls w @ new1"
    "created new1 = [name p]" by blast
  from n1 n2 have "calls (snd y) = calls w @ (new1 @ new2) \<and> 0 < Suc k \<and>
      created (new1 @ new2) = replicate (Suc k) (name p)"
    by (simp add: created_append)
  then show "\<exists>new k. calls (snd y) = calls w @ new \<and> 0 < k \<and> created new = replicate k (name p)"
    by blast
qed

lemma activate_each_created:
  "activate_each conn tr ps w = Some (Inr v, w') \<Longrightarrow>
   \<exists>new ks. calls w' = calls w @ new \<and> length ks = length ps \<and> list_all (\<lambda>k. 0 < k) ks \<and>
     created new = repeated ks (map name ps)"
proof (induction ps arbitrary: w)
  case Nil
  then have "calls w' = calls w @ [] \<and> length ([]::nat list) = length ([]::'b pipeline list) \<and>
     list_all (\<lambda>k. 0 < k) ([]::nat list) \<and> created [] = repeated ([]::nat list) (map name ([]::'b pipeline list))"
    by simp
  then show ?case by blast
next
  case (Cons p ps)
  from Cons.prems obtain v1 w1 where a: "activate conn tr p w = Some (Inr v1, w1)"
    and rest: "activate_each conn tr ps w1 = Some (Inr v, w')"
    by (auto split: option.splits sum.splits prod.splits)
  from activate_created[OF a] obtain new1 k where n1: "calls w1 = calls w @ new1" "0 < k"
    "created new1 = replicate k (name p)" by auto
  from Cons.IH[OF rest] obtain new2 ks where n2: "calls w' = calls w1 @ new2"
    "length ks = length ps" "list_all (\<lambda>k. 0 < k) ks" "created new2 = repeated ks (map name ps)"
    by blast
  from n1 n2 have "calls w' = calls w @ (new1 @ new2) \<and> length (k # ks) = length (p # ps) \<and>
     list_all (\<lambda>k. 0 < k) (k # ks) \<and> created (new1 @ new2) = repeated (k # ks) (map name (p # ps))"
    by (simp add: created_append)
  then show ?case by blast
qed

lemma activate_each_returns:
  "(activate_each conn tr ps w1 = Some (Inr v, w2)) =
   (v = PNone \<and>
    (\<exists>ws. length ws = Suc (length ps) \<and> ws ! 0 = w1 \<and> ws ! length ps = w2 \<and>
       (\<forall>i<length ps. \<exists>r. activate conn tr (ps ! i) (ws ! i) = Some (Inr r, ws ! Suc i))))"
proof (induction ps arbitrary: w1)
  case Nil
  show ?case
  proof
    assume "activate_each conn tr [] w1 = Some (Inr v, w2)"
    then have "v = PNone" "w2 = w1" by simp_all
    then have "length [w1] = Suc (length ([]::'b pipeline list)) \<and> [w1] ! 0 = w1 \<and>
        [w1] ! length ([]::'b pipeline list) = w2" by simp
    with \<open>v = PNone\<close> show "v = PNone \<and>
    (\<exists>ws. length ws = Suc (length ([]::'b pipeline list)) \<and> ws ! 0 = w1 \<and> ws ! length ([]::'b pipeline list) = w2 \<and>
       (\<forall>i<length ([]::'b pipeline list). \<exists>r. activate conn tr ([] ! i) (ws ! i) = Some (Inr r, ws ! Suc i)))"
      by (intro conjI exI[of _ "[w1]"]) simp_all
  next
    assume "v = PNone \<and>
    (\<exists>ws. length ws = Suc (length ([]::'b pipeline list)) \<and> ws ! 0 = w1 \<and> ws ! length ([]::'b pipeline list) = w2 \<and>
       (\<forall>i<length ([]::'b pipeline list). \<exists>r. activate conn tr ([] ! i) (ws ! i) = Some (Inr r, ws ! Suc i)))"
    then have "v = PNone" "w2 = w1" by auto
    then show "activate_each conn tr [] w1 = Some (Inr v, w2)" by simp
  qed
next
  case (Cons p ps)
  show ?case
  proof
    assume run: "activate_each conn tr (p # ps) w1 = Some (Inr v, w2)"
    then obtain r wa where a: "activate conn tr p w1 = Some (Inr r, wa)"
      and rest: "activate_each conn tr ps wa = Some (Inr v, w2)"
      by (auto split: option.splits sum.splits prod.splits)
    from rest obtain ws where v: "v = PNone" and ws: "length ws = Suc (length ps)" "ws ! 0 = wa"
      "ws ! length ps = w2"
      and chain: "\<forall>i<length ps. \<exists>r. activate conn tr (ps ! i) (ws ! i) = Some (Inr r, ws ! Suc i)"
      unfolding Cons.IH by blast
    have "\<forall>i<length (p # ps). \<exists>r. activate conn tr ((p # ps) ! i) ((w1 # ws) ! i) = Some (Inr r, (w1 # ws) ! Suc i)"
    proof (intro allI impI)
      fix i assume i: "i < length (p # ps)"
      show "\<exists>r. activate conn tr ((p # ps) ! i) ((w1 # ws) ! i) = Some (Inr r, (w1 # ws) ! Suc i)"
      proof (cases i)
        case 0
        with a ws show ?thesis by auto
      next
        case (Suc j)
        with i chain show ?thesis by auto
      qed
    qed
    moreover have "length (w1 # ws) = Suc (length (p # ps))" "(w1 # ws) ! 0 = w1"
      "(w1 # ws) ! length (p # ps) = w2" using ws by simp_all
    ultimately show "v = PNone \<and>
      (\<exists>ws. length ws = Suc (length (p # ps)) \<and> ws ! 0 = w1 \<and> ws ! length (p # ps) = w2 \<and>
       (\<forall>i<length (p # ps). \<exists>r. activate conn tr ((p # ps) ! i) (ws ! i) = Some (Inr r, ws ! Suc i)))"
      using v by blast
  next
    assume "v = PNone \<and>
      (\<exists>ws. length ws = Suc (length (p # ps)) \<and> ws ! 0 = w1 \<and> ws ! length (p # ps) = w2 \<and>
       (\<forall>i<length (p # ps). \<exists>r. activate conn tr ((p # ps) ! i) (ws ! i) = Some (Inr r, ws ! Suc i)))"
    then obtain ws where v: "v = PNone" and ws: "length ws = Suc (length (p # ps))" "ws ! 0 = w1"
      "ws ! length (p # ps) = w2"
      and chain: "\<forall>i<length (p # ps). \<exists>r. activate conn tr ((p # ps) ! i) (ws ! i) = Some (Inr r, ws ! Suc i)"
      by blast
    from ws(1) obtain w0 ws' where split: "ws = w0 # ws'" by (cases ws) auto
    with ws have w0: "w0 = w1" and len: "length ws' = Suc (length ps)" and lst: "ws' ! length ps = w2"
      by simp_all
    from chain[rule_format, of 0]
    have "\<exists>r. activate conn tr ((p # ps) ! 0) (ws ! 0) = Some (Inr r, ws ! Suc 0)" by simp
    then obtain r where a: "activate conn tr p w1 = Some (Inr r, ws' ! 0)"
      using split w0 by auto
    have chain': "\<forall>i<length ps. \<exists>r. activate conn tr (ps ! i) (ws' ! i) = Some (Inr r, ws' ! Suc i)"
    proof (intro allI impI)
      fix i assume "i < length ps"
      then have "Suc i < length (p # ps)" by simp
      with chain have "\<exists>r. activate conn tr ((p # ps) ! Suc i) (ws ! Suc i) = Some (Inr r, ws ! Suc (Suc i))"
        by blast
      then show "\<exists>r. activate conn tr (ps ! i) (ws' ! i) = Some (Inr r, ws' ! Suc i)"
        using split by simp
    qed
    have "activate_each conn tr ps (ws' ! 0) = Some (Inr v, w2)"
      unfolding Cons.IH using v len lst chain' by blast
    with a show "activate_each conn tr (p # ps) w1 = Some (Inr v, w2)" by simp
  qed
qed


lemma activate_each_raises:
  "(activate_each conn tr ps w1 = Some (Inl e, w2)) =
   (\<exists>n ws. n < length ps \<and> length ws = Suc n \<and> ws ! 0 = w1 \<and>
       (\<forall>i<n. \<exists>r. activate conn tr (ps ! i) (ws ! i) = Some (Inr r, ws ! Suc i)) \<and>
       activate conn tr (ps ! n) (ws ! n) = Some (Inl e, w2))"
proof (induction ps arbitrary: w1)
  case Nil
  show ?case by simp
next
  case (Cons p ps)
  show ?case
  proof
    assume run: "activate_each conn tr (p # ps) w1 = Some (Inl e, w2)"
    then consider (first) "activate conn tr p w1 = Some (Inl e, w2)"
      | (later) r wa where "activate conn tr p w1 = Some (Inr r, wa)"
          "activate_each conn tr ps wa = Some (Inl e, w2)"
      by (auto split: option.splits sum.splits prod.splits)
    then show "\<exists>n ws. n < length (p # ps) \<and> length ws = Suc n \<and> ws ! 0 = w1 \<and>
       (\<forall>i<n. \<exists>r. activate conn tr ((p # ps) ! i) (ws ! i) = Some (Inr r, ws ! Suc i)) \<and>
       activate conn tr ((p # ps) ! n) (ws ! n) = Some (Inl e, w2)"
    proof cases
      case first
      then have "0 < length (p # ps) \<and> length [w1] = Suc 0 \<and> [w1] ! 0 = w1 \<and>
       (\<forall>i<0. \<exists>r. activate conn tr ((p # ps) ! i) ([w1] ! i) = Some (Inr r, [w1] ! Suc i)) \<and>
       activate conn tr ((p # ps) ! 0) ([w1] ! 0) = Some (Inl e, w2)" by simp
      then show ?thesis by blast
    next
      case later
      from later(2) obtain n ws where n: "n < length ps" and ws: "length ws = Suc n" "ws ! 0 = wa"
        and chain: "\<forall>i<n. \<exists>r. activate conn tr (ps ! i) (ws ! i) = Some (Inr r, ws ! Suc i)"
        and fail: "activate conn tr (ps ! n) (ws ! n) = Some (Inl e, w2)"
        unfolding Cons.IH by blast
      have "\<forall>i<Suc n. \<exists>r. activate conn tr ((p # ps) ! i) ((w1 # ws) ! i) = Some (Inr r, (w1 # ws) ! Suc i)"
      proof (intro allI impI)
        fix i assume i: "i < Suc n"
        show "\<exists>r. activate conn tr ((p # ps) ! i) ((w1 # ws) ! i) = Some (Inr r, (w1 # ws) ! Suc i)"
        proof (cases i)
          case 0
          with later(1) ws show ?thesis by auto
        next
          case (Suc j)
          with i chain show ?thesis by auto
        qed
      qed
      moreover have "Suc n < length (p # ps)" "length (w1 # ws) = Suc (Suc n)" "(w1 # ws) ! 0 = w1"
        "activate conn tr ((p # ps) ! Suc n) ((w1 # ws) ! Suc n) = Some (Inl e, w2)"
        using n ws fail by simp_all
      ultimately show ?thesis by blast
    qed
  next
    assume "\<exists>n ws. n < length (p # ps) \<and> length ws = Suc n \<and> ws ! 0 = w1 \<and>
       (\<forall>i<n. \<exists>r. activate conn tr ((p # ps) ! i) (ws ! i) = Some (Inr r, ws ! Suc i)) \<and>
       activate conn tr ((p # ps) ! n) (ws ! n) = Some (Inl e, w2)"
    then obtain n ws where n: "n < length (p # ps)" and ws: "length ws = Suc n" "ws ! 0 = w1"
      and chain: "\<forall>i<n. \<exists>r. activate conn tr ((p # ps) ! i) (ws ! i) = Some (Inr r, ws ! Suc i)"
      and fail: "activate conn tr ((p # ps) ! n) (ws ! n) = Some (Inl e, w2)"
      by blast
    show "activate_each conn tr (p # ps) w1 = Some (Inl e, w2)"
    proof (cases n)
      case 0
      with fail ws have "activate conn tr p w1 = Some (Inl e, w2)" by simp
      then show ?thesis by simp
    next
      case (Suc m)
      from ws(1) obtain w0 ws' where split: "ws = w0 # ws'" by (cases ws) auto
      with ws Suc have w0: "w0 = w1" and len: "length ws' = Suc m" by simp_all
      from chain[rule_format, of 0] Suc
      have "\<exists>r. activate conn tr ((p # ps) ! 0) (ws ! 0) = Some (Inr r, ws ! Suc 0)"
        by simp
      then obtain r where a: "activate conn tr p w1 = Some (Inr r, ws' ! 0)"
        using split w0 by auto
      have chain': "\<forall>i<m. \<exists>r. activate conn tr (ps ! i) (ws' ! i) = Some (Inr r, ws' ! Suc i)"
      proof (intro allI impI)
        fix i assume "i < m"
        then have "Suc i < n" using Suc by simp
        with chain have "\<exists>r. activate conn tr ((p # ps) ! Suc i) (ws ! Suc i) = Some (Inr r, ws ! Suc (Suc i))"
          by blast
        then show "\<exists>r. activate conn tr (ps ! i) (ws' ! i) = Some (Inr r, ws' ! Suc i)"
          using split by simp
      qed
      have m: "m < length ps" using n Suc by simp
      have fail': "activate conn tr (ps ! m) (ws' ! m) = Some (Inl e, w2)"
        using fail Suc split by simp
      have "activate_each conn tr ps (ws' ! 0) = Some (Inl e, w2)"
        unfolding Cons.IH using m len chain' fail' by blast
      with a show ?thesis by simp
    qed
  qed
qed

text \<open>
  Claim C7. Validation sends only the stub's create and the dry-run requests. When some
  instance fails validation, \<^verbatim>\<open>Pipelayer.activate\<close> logs the error and returns \<^verbatim>\<open>False\<close>
  with no further request: no \<^verbatim>\<open>activate\<close> of an instance was begun. When all instances
  validate, \<^verbatim>\<open>activate\<close> is run on the instances in turn, each in the world its
  predecessor left: the batch returns exactly when every one of these runs returns, and
  it ends in the world the last one left; it raises exactly when one of them raises
  after all the earlier ones returned. When the batch returns, the pipelines created
  since validation are the instances in turn, each one at least once.
\<close>

theorem Pipelayer_activate_gate:
  assumes "are_pipelines_valid conn tr ps w = (Inr valid, w1)"
  shows "list_all validation_request (issued w w1) \<and>
         (\<not> valid \<longrightarrow>
            Pipelayer_activate conn tr ps w =
              Some (Inr (PBool False),
                    logging ERROR (PStr ''Not activating pipelines due to validation errors.'') [] w1) \<and>
            calls (logging ERROR (PStr ''Not activating pipelines due to validation errors.'') [] w1) = calls w1) \<and>
         (valid \<longrightarrow>
            (\<forall>v w2. (Pipelayer_activate conn tr ps w = Some (Inr v, w2)) =
               (v = PNone \<and>
                (\<exists>ws. length ws = Suc (length ps) \<and> ws ! 0 = w1 \<and> ws ! length ps = w2 \<and>
                   (\<forall>i<length ps. \<exists>r. activate conn tr (ps ! i) (ws ! i) = Some (Inr r, ws ! Suc i))))) \<and>
            (\<forall>e w2. (Pipelayer_activate conn tr ps w = Some (Inl e, w2)) =
               (\<exists>n ws. n < length ps \<and> length ws = Suc n \<and> ws ! 0 = w1 \<and>
                   (\<forall>i<n. \<exists>r. activate conn tr (ps ! i) (ws ! i) = Some (Inr r, ws ! Suc i)) \<and>
                   activate conn tr (ps ! n) (ws ! n) = Some (Inl e, w2))) \<and>
            (\<forall>v w2. Pipelayer_activate conn tr ps w = Some (Inr v, w2) \<longrightarrow>
               (\<exists>ks. length ks = length ps \<and> list_all (\<lambda>k. 0 < k) ks \<and>
                     created (issued w1 w2) = repeated ks (map name ps))))"
proof -
  from are_pipelines_valid_requests[OF assms] obtain new where
    n: "calls w1 = calls w @ new" "list_all validation_request new" by blast
  from n have a: "list_all validation_request (issued w w1)" by (simp add: issued_append)
  have b: "\<not> valid \<longrightarrow>
            Pipelayer_activate conn tr ps w =
              Some (Inr (PBool False),
                    logging ERROR (PStr ''Not activating pipelines due to validation errors.'') [] w1) \<and>
            calls (logging ERROR (PStr ''Not activating pipelines due to validation errors.'') [] w1) = calls w1"
    by (simp add: Pipelayer_activate_def assms)
  have loop: "valid \<Longrightarrow> Pipelayer_activate conn tr ps w = activate_each conn tr ps w1"
    by (simp add: Pipelayer_activate_def assms)
  have c: "valid \<longrightarrow>
            (\<forall>v w2. (Pipelayer_activate conn tr ps w = Some (Inr v, w2)) =
               (v = PNone \<and>
                (\<exists>ws. length ws = Suc (length ps) \<and> ws ! 0 = w1 \<and> ws ! length ps = w2 \<and>
                   (\<forall>i<length ps. \<exists>r. activate conn tr (ps ! i) (ws ! i) = Some (Inr r, ws ! Suc i))))) \<and>
            (\<forall>e w2. (Pipelayer_activate conn tr ps w = Some (Inl e, w2)) =
               (\<exists>n ws. n < length ps \<and> length ws = Suc n \<and> ws ! 0 = w1 \<and>
                   (\<forall>i<n. \<exists>r. activate conn tr (ps ! i) (ws ! i) = Some (Inr r, ws ! Suc i)) \<and>
                   activate conn tr (ps ! n) (ws ! n) = Some (Inl e, w2))) \<and>
            (\<forall>v w2. Pipelayer_activate conn tr ps w = Some (Inr v, w2) \<longrightarrow>
               (\<exists>ks. length ks = length ps \<and> list_all (\<lambda>k. 0 < k) ks \<and>
                     created (issued w1 w2) = repeated ks (map name ps)))"
  proof
    assume valid
    note eq = loop[OF \<open>valid\<close>]
    have c3: "\<forall>v w2. activate_each conn tr ps w1 = Some (Inr v, w2) \<longrightarrow>
               (\<exists>ks. length ks = length ps \<and> list_all (\<lambda>k. 0 < k) ks \<and>
                     created (issued w1 w2) = repeated ks (map name ps))"
    proof (intro allI impI)
      fix v w2 assume "activate_each conn tr ps w1 = Some (Inr v, w2)"
      from activate_each_created[OF this] obtain new ks where
        "calls w2 = calls w1 @ new" "length ks = length ps" "list_all (\<lambda>k. 0 < k) ks"
        "created new = repeated ks (map name ps)" by blast
      then show "\<exists>ks. length ks = length ps \<and> list_all (\<lambda>k. 0 < k) ks \<and>
                     created (issued w1 w2) = repeated ks (map name ps)"
        by (auto simp: issued_append)
    qed
    show "(\<forall>v w2. (Pipelayer_activate conn tr ps w = Some (Inr v, w2)) =
               (v = PNone \<and>
                (\<exists>ws. length ws = Suc (length ps) \<and> ws ! 0 = w1 \<and> ws ! length ps = w2 \<and>
                   (\<forall>i<length ps. \<exists>r. activate conn tr (ps ! i) (ws ! i) = Some (Inr r, ws ! Suc i))))) \<and>
            (\<forall>e w2. (Pipelayer_activate conn tr ps w = Some (Inl e, w2)) =
               (\<exists>n ws. n < length ps \<and> length ws = Suc n \<and> ws ! 0 = w1 \<and>
                   (\<forall>i<n. \<exists>r. activate conn tr (ps ! i) (ws ! i) = Some (Inr r, ws ! Suc i)) \<and>
                   activate conn tr (ps ! n) (ws ! n) = Some (Inl e, w2))) \<and>
            (\<forall>v w2. Pipelayer_activate conn tr ps w = Some (Inr v, w2) \<longrightarrow>
               (\<exists>ks. length ks = length ps \<and> list_all (\<lambda>k. 0 < k) ks \<and>
                     created (issued w1 w2) = repeated ks (map name ps)))"
      unfolding eq using activate_each_returns[of conn tr ps w1] activate_each_raises[of conn tr ps w1] c3
      by blast
  qed
  from a b c show ?thesis by blast
qed

text \<open>The theorem on a set with an instance that fails validation, and on a set of two
  instances that validate: the second finds the entity scheduled by the first, deletes
  it and starts again.\<close>

lemmas validation_defs =
  are_pipelines_valid_def is_valid_def log_validation_messages_def stub_request_def

theorem Pipelayer_activate_gate_witness:
  "result_of (Pipelayer_activate prompt_service plain_translator
      [pipeline_named ''hourly'' hourly_definition, pipeline_named ''empty'' empty_definition]
      (world_in fresh)) = Some (Inr (PBool False)) \<and>
   list_all validation_request
     (issued (world_in fresh)
        (snd (are_pipelines_valid prompt_service plain_translator
          [pipeline_named ''hourly'' hourly_definition, pipeline_named ''empty'' empty_definition]
          (world_in fresh)))) \<and>
   result_of (Pipelayer_activate prompt_service plain_translator
      [pipeline_named ''hourly'' hourly_definition, pipeline_named ''daily'' daily_definition]
      (world_in fresh)) = Some (Inr PNone) \<and>
   requests_of (Pipelayer_activate prompt_service plain_translator
      [pipeline_named ''hourly'' hourly_definition, pipeline_named ''daily'' daily_definition]
      (world_in fresh)) =
     Some [stub_request,
           Validate_pipeline_definition hourly_definition (PStr ''df-1'') (PList [])
             (PDict [(''values'', pvalues (pipeline_named ''hourly'' hourly_definition))]),
           stub_request,
           Validate_pipeline_definition daily_definition (PStr ''df-1'') (PList [])
             (PDict [(''values'', pvalues (pipeline_named ''daily'' daily_definition))]),
           Create_pipeline (PStr ''hourly'') (PStr ''unique_id'') PNone,
           Get_pipeline_definition (PStr ''df-1''), Describe_pipelines [PStr ''df-1''],
           Put_pipeline_definition hourly_definition (PStr ''df-1'') (PList [])
             (PDict [(''values'', pvalues (pipeline_named ''hourly'' hourly_definition))]),
           Activate_pipeline (PStr ''df-1''),
           Create_pipeline (PStr ''daily'') (PStr ''unique_id'') PNone,
           Get_pipeline_definition (PStr ''df-1''), Describe_pipelines [PStr ''df-1''],
           Delete_pipeline (PStr ''df-1''),
           Create_pipeline (PStr ''daily'') (PStr ''unique_id'') PNone,
           Get_pipeline_definition (PStr ''df-1''), Describe_pipelines [PStr ''df-1''],
           Put_pipeline_definition daily_definition (PStr ''df-1'') (PList [])
             (PDict [(''values'', pvalues (pipeline_named ''daily'' daily_definition))]),
           Activate_pipeline (PStr ''df-1'')]"
proof -
  let ?c = prompt_service and ?t = plain_translator
  let ?h = "pipeline_named ''hourly'' hourly_definition"
  let ?d = "pipeline_named ''daily'' daily_definition"
  let ?bad = "[?h, pipeline_named ''empty'' empty_definition]"
  let ?good = "[?h, ?d]"
  let ?i = "PStr ''df-1''"
  have hA: "are_pipelines_valid ?c ?t ?bad (world_in fresh) =
      (Inr False, snd (are_pipelines_valid ?c ?t ?bad (world_in fresh)))"
    by (simp add: validation_defs run_defs scenario_defs)
  define w1 where "w1 = snd (are_pipelines_valid ?c ?t ?good (world_in fresh))"
  have hB: "are_pipelines_valid ?c ?t ?good (world_in fresh) = (Inr True, w1)"
    by (simp add: w1_def validation_defs run_defs scenario_defs)
  define v1 where "v1 = w1\<lparr>remote := (''SCHEDULED'', hourly_definition),
      calls := calls w1 @ [Create_pipeline (PStr ''hourly'') (PStr ''unique_id'') PNone,
           Get_pipeline_definition ?i, Describe_pipelines [?i],
           Put_pipeline_definition hourly_definition ?i (PList []) (PDict [(''values'', pvalues ?h)]),
           Activate_pipeline ?i],
      outputs := outputs w1 @ [Log DEBUG (PStr ''Putting pipeline definition'') [],
                 Log INFO (PStr ''Activating pipeline with id {}'') [?i]]\<rparr>"
  define v2 where "v2 = v1\<lparr>remote := (''SCHEDULED'', daily_definition),
      calls := calls v1 @ [Create_pipeline (PStr ''daily'') (PStr ''unique_id'') PNone,
           Get_pipeline_definition ?i, Describe_pipelines [?i], Delete_pipeline ?i,
           Create_pipeline (PStr ''daily'') (PStr ''unique_id'') PNone,
           Get_pipeline_definition ?i, Describe_pipelines [?i],
           Put_pipeline_definition daily_definition ?i (PList []) (PDict [(''values'', pvalues ?d)]),
           Activate_pipeline ?i],
      outputs := outputs v1 @ [Print [PStr ''State is: '', PStr ''SCHEDULED''],
                 Log INFO (PStr ''Deleting pipeline with id {}'') [?i],
                 Log DEBUG (PStr ''Putting pipeline definition'') [],
                 Log INFO (PStr ''Activating pipeline with id {}'') [?i]]\<rparr>"
  have a1: "activate ?c ?t ?h w1 = Some (Inr PNone, v1)"
    by (subst activate.simps,
        simp add: v1_def w1_def validation_defs run_defs scenario_defs)
  have a2: "activate ?c ?t ?d v1 = Some (Inr PNone, v2)"
    by (subst activate.simps,
        simp add: v2_def v1_def w1_def validation_defs run_defs scenario_defs,
        subst activate.simps,
        simp add: v2_def v1_def w1_def validation_defs run_defs scenario_defs)
  have chain: "\<forall>i<length ?good. \<exists>r. activate ?c ?t (?good ! i) ([w1, v1, v2] ! i) =
      Some (Inr r, [w1, v1, v2] ! Suc i)"
  proof (intro allI impI)
    fix i assume "i < length ?good"
    then consider "i = 0" | "i = 1" by fastforce
    then show "\<exists>r. activate ?c ?t (?good ! i) ([w1, v1, v2] ! i) = Some (Inr r, [w1, v1, v2] ! Suc i)"
      using a1 a2 by cases simp_all
  qed
  have "length [w1, v1, v2] = Suc (length ?good) \<and> [w1, v1, v2] ! 0 = w1 \<and>
      [w1, v1, v2] ! length ?good = v2" by simp
  with chain have "\<exists>ws. length ws = Suc (length ?good) \<and> ws ! 0 = w1 \<and> ws ! length ?good = v2 \<and>
      (\<forall>i<length ?good. \<exists>r. activate ?c ?t (?good ! i) (ws ! i) = Some (Inr r, ws ! Suc i))"
    by blast
  with Pipelayer_activate_gate[OF hB]
  have run: "Pipelayer_activate ?c ?t ?good (world_in fresh) = Some (Inr PNone, v2)"
    by blast
  have c2: "calls v2 = [stub_request,
           Validate_pipeline_definition hourly_definition ?i (PList []) (PDict [(''values'', pvalues ?h)]),
           stub_request,
           Validate_pipeline_definition daily_definition ?i (PList []) (PDict [(''values'', pvalues ?d)]),
           Create_pipeline (PStr ''hourly'') (PStr ''unique_id'') PNone,
           Get_pipeline_definition ?i, Describe_pipelines [?i],
           Put_pipeline_definition hourly_definition ?i (PList []) (PDict [(''values'', pvalues ?h)]),
           Activate_pipeline ?i,
           Create_pipeline (PStr ''daily'') (PStr ''unique_id'') PNone,
           Get_pipeline_definition ?i, Describe_pipelines [?i], Delete_pipeline ?i,
           Create_pipeline (PStr ''daily'') (PStr ''unique_id'') PNone,
           Get_pipeline_definition ?i, Describe_pipelines [?i],
           Put_pipeline_definition daily_definition ?i (PList []) (PDict [(''values'', pvalues ?d)]),
           Activate_pipeline ?i]"
    by (simp add: v2_def v1_def w1_def validation_defs run_defs scenario_defs)
  from Pipelayer_activate_gate[OF hA] run c2
  show ?thesis by (simp add: result_of_def requests_of_def)
qed

end
